theory Spec2Isabelle
  imports Main "HOL-Library.Word"
begin

section \<open>pop3\_check: a POP3 mailbox size checker (pop3\_check.go)\<close>

text \<open>
  The program dials a POP3 server, reads the greeting, sends USER, PASS and LIST,
  parses the LIST lines with \<^verbatim>\<open>fmt.Sscanf(line, "%d %d", &id, &size)\<close>, logs a warning
  for every message larger than a threshold and one more when the total is larger than
  a quota.

  The embedding is shallow. The network and the logger become one record, \<open>world\<close>,
  threaded through every function; the package-level variable \<^verbatim>\<open>verboseOutput\<close>, which
  the core only reads, is a parameter:
  \<^item> each call of \<^verbatim>\<open>Reader.ReadString('\n')\<close> takes the next element of \<open>incoming\<close>
    (a pair of the bytes read and Go's \<^verbatim>\<open>error\<close>, \<open>None\<close> for \<^verbatim>\<open>nil\<close>);
  \<^item> each call of \<^verbatim>\<open>writeLine\<close> takes the next element of \<open>wresults\<close> and appends
    the line, with what became of it, to \<open>outgoing\<close>;
  \<^item> each \<^verbatim>\<open>log.Printf\<close> appends one \<open>log_entry\<close> to \<open>logged\<close>.
  Go's \<^verbatim>\<open>int\<close> is the 64-bit two's complement integer of every 64-bit Go target:
  \<open>64 word\<close>, compared through \<open>sint\<close>, added with wrap-around.
\<close>

subsection \<open>Errors, log lines and the world\<close>

type_synonym go_int = "64 word"

datatype error =
    NetTimeout          \<comment> \<open>a \<^verbatim>\<open>net.Error\<close> whose \<^verbatim>\<open>Timeout()\<close> is true\<close>
  | IoEOF               \<comment> \<open>\<^verbatim>\<open>io.EOF\<close>\<close>
  | Transport string    \<comment> \<open>any other error of the connection\<close>
  | ErrorsNew string    \<comment> \<open>\<^verbatim>\<open>errors.New(text)\<close>\<close>

datatype scan_error =
    UnexpectedNewline   \<comment> \<open>"unexpected newline"\<close>
  | ScanEOF             \<comment> \<open>the input ended where a number had to start\<close>
  | ExpectedInteger     \<comment> \<open>"expected integer"\<close>
  | ExpectedSpace       \<comment> \<open>"expected space in input to match format"\<close>
  | NewlineInInput      \<comment> \<open>"newline in input does not match format"\<close>
  | ErrSyntax           \<comment> \<open>\<^verbatim>\<open>strconv.ErrSyntax\<close>\<close>
  | ErrRange            \<comment> \<open>\<^verbatim>\<open>strconv.ErrRange\<close>\<close>

datatype write_result =
    WriteOk
  | WriteFails error    \<comment> \<open>\<^verbatim>\<open>Writer.WriteString\<close> returns the error\<close>
  | FlushFails error    \<comment> \<open>\<^verbatim>\<open>Writer.Flush\<close> returns the error\<close>

datatype conn_status = NotConnected | Open | Closed

text \<open>One constructor for each \<^verbatim>\<open>log.Printf\<close> of the core, carrying its arguments.\<close>

datatype log_entry =
    ReadFailure error                \<comment> \<open>"Read failure: %s" (readLine)\<close>
  | ReadError error                  \<comment> \<open>"Read error: %s" (readLines)\<close>
  | WritingLine string               \<comment> \<open>"Writing line [%s]", verbose only\<close>
  | FailureWriting error             \<comment> \<open>"Failure writing: %s"\<close>
  | FlushError error                 \<comment> \<open>"Flush error: %s"\<close>
  | Connecting string                \<comment> \<open>"Connecting to %s...", verbose only\<close>
  | FailedToConnect string error     \<comment> \<open>"Failed to connect to [%s]: %s"\<close>
  | Connected string string          \<comment> \<open>"Connected to [%s] (%s)", verbose only\<close>
  | ErrorReadingLines error          \<comment> \<open>"Error reading lines: %s"\<close>
  | UnexpectedNumberOfLines nat      \<comment> \<open>"Unexpected number of lines: %s"\<close>
  | GreetingNotOK string             \<comment> \<open>"Greeting line is not OK: %s"\<close>
  | LoginFailureUser error           \<comment> \<open>"Login failure: user: %s"\<close>
  | FailedToReadLines error          \<comment> \<open>"Failed to read lines: %s"\<close>
  | UnexpectedUSER                   \<comment> \<open>"Unexpected USER response"\<close>
  | LoginFailurePass error           \<comment> \<open>"Login failure: pass: %s"\<close>
  | FailedToReadLinesPass error      \<comment> \<open>"Failed to read lines: pass: %s"\<close>
  | UnexpectedPASS                   \<comment> \<open>"Unexpected PASS response"\<close>
  | FailedToListMessages error       \<comment> \<open>"Failed to list messages: %s"\<close>
  | ReadLISTLine string              \<comment> \<open>"Read LIST line: %s", verbose only\<close>
  | ListParseFailure scan_error      \<comment> \<open>"LIST line parse failure: %s"\<close>
  | ListNotFullyParsed string        \<comment> \<open>"LIST line not fully parsed: %s"\<close>
  | WarningMessage go_int go_int     \<comment> \<open>"Warning: Message %d has size %d"\<close>
  | TotalSize go_int                 \<comment> \<open>"Total size of mailbox: %d", verbose only\<close>
  | WarningMailbox go_int            \<comment> \<open>"Warning: Mailbox has total used size: %d"\<close>

record world =
  dialErr :: "error option"                   \<comment> \<open>what \<^verbatim>\<open>net.Dial\<close> returns\<close>
  remoteAddr :: string                        \<comment> \<open>\<^verbatim>\<open>rawConn.RemoteAddr().String()\<close>\<close>
  status :: conn_status
  incoming :: "(string \<times> error option) list"  \<comment> \<open>results of the coming \<^verbatim>\<open>ReadString\<close> calls\<close>
  wresults :: "write_result list"             \<comment> \<open>results of the coming \<^verbatim>\<open>writeLine\<close> calls\<close>
  outgoing :: "(string \<times> write_result) list" \<comment> \<open>every line handed to the writer so far\<close>
  logged :: "log_entry list"

definition logPrintf :: "log_entry \<Rightarrow> world \<Rightarrow> world" where
  "logPrintf e w = w\<lparr>logged := logged w @ [e]\<rparr>"

text \<open>\<^verbatim>\<open>func (conn *Conn) Close()\<close>, lines 151-154.\<close>

definition Close :: "world \<Rightarrow> world" where
  "Close w = w\<lparr>status := Closed\<rparr>"

subsection \<open>Strings: white space, \<^verbatim>\<open>strings.TrimSpace\<close>, \<^verbatim>\<open>strings.HasPrefix\<close>\<close>

text \<open>
  A Go string is a byte sequence (\<open>string\<close>, a list of 8-bit \<open>char\<close>s) that
  \<^verbatim>\<open>strings.TrimSpace\<close> and the scanner of \<^verbatim>\<open>fmt\<close> read as UTF-8. Both use the same
  set of white-space code points: U+0009 to U+000D, U+0020, U+0085, U+00A0, U+1680,
  U+2000 to U+200A, U+2028, U+2029, U+202F, U+205F and U+3000. \<open>spaceWidth s\<close> is the
  number of bytes of the white-space code point \<open>s\<close> starts with, 0 when it starts with
  none; \<open>spaceWidthEnd s\<close> is the same for the code point \<open>s\<close> ends with.
\<close>

definition asciiSpace :: "char \<Rightarrow> bool" where
  "asciiSpace c \<longleftrightarrow>
     c = CHR 0x09 \<or> c = CHR 0x0A \<or> c = CHR 0x0B \<or> c = CHR 0x0C \<or> c = CHR 0x0D \<or> c = CHR 0x20"

definition spaceRunes :: "string list" where
  "spaceRunes =
     [[CHR 0xC2, CHR 0x85], [CHR 0xC2, CHR 0xA0], [CHR 0xE1, CHR 0x9A, CHR 0x80],
      [CHR 0xE2, CHR 0x80, CHR 0x80], [CHR 0xE2, CHR 0x80, CHR 0x81],
      [CHR 0xE2, CHR 0x80, CHR 0x82], [CHR 0xE2, CHR 0x80, CHR 0x83],
      [CHR 0xE2, CHR 0x80, CHR 0x84], [CHR 0xE2, CHR 0x80, CHR 0x85],
      [CHR 0xE2, CHR 0x80, CHR 0x86], [CHR 0xE2, CHR 0x80, CHR 0x87],
      [CHR 0xE2, CHR 0x80, CHR 0x88], [CHR 0xE2, CHR 0x80, CHR 0x89],
      [CHR 0xE2, CHR 0x80, CHR 0x8A], [CHR 0xE2, CHR 0x80, CHR 0xA8],
      [CHR 0xE2, CHR 0x80, CHR 0xA9], [CHR 0xE2, CHR 0x80, CHR 0xAF],
      [CHR 0xE2, CHR 0x81, CHR 0x9F], [CHR 0xE3, CHR 0x80, CHR 0x80]]"

definition HasPrefix :: "string \<Rightarrow> string \<Rightarrow> bool" where
  "HasPrefix s pre \<longleftrightarrow> take (length pre) s = pre"

definition HasSuffix :: "string \<Rightarrow> string \<Rightarrow> bool" where
  "HasSuffix s suf \<longleftrightarrow> length suf \<le> length s \<and> drop (length s - length suf) s = suf"

definition spaceWidth :: "string \<Rightarrow> nat" where
  "spaceWidth s =
     (case s of
        [] \<Rightarrow> 0
      | c # _ \<Rightarrow>
          if asciiSpace c then 1
          else (case filter (HasPrefix s) spaceRunes of [] \<Rightarrow> 0 | r # _ \<Rightarrow> length r))"

definition spaceWidthEnd :: "string \<Rightarrow> nat" where
  "spaceWidthEnd s =
     (if s = [] then 0
      else if asciiSpace (last s) then 1
      else (case filter (HasSuffix s) spaceRunes of [] \<Rightarrow> 0 | r # _ \<Rightarrow> length r))"

function TrimLeft :: "string \<Rightarrow> string" where
  "TrimLeft s = (if spaceWidth s = 0 then s else TrimLeft (drop (spaceWidth s) s))"
  by pat_completeness auto
termination
  by (relation "measure length") (auto simp: spaceWidth_def split: list.splits)

function TrimRight :: "string \<Rightarrow> string" where
  "TrimRight s =
     (if spaceWidthEnd s = 0 then s else TrimRight (take (length s - spaceWidthEnd s) s))"
  by pat_completeness auto
termination
  by (relation "measure length") (auto simp: spaceWidthEnd_def split: if_splits)

definition TrimSpace :: "string \<Rightarrow> string" where
  "TrimSpace s = TrimRight (TrimLeft s)"

declare TrimLeft.simps [simp del] TrimRight.simps [simp del]

subsection \<open>The line session: readLine, readLines, writeLine\<close>

text \<open>
  \<^verbatim>\<open>conn.ReadWriter.Reader.ReadString('\n')\<close>: the next element of \<open>incoming\<close>. A
  finite \<open>incoming\<close> is a peer that closes the connection after its last line:
  once the list is used up every read returns \<^verbatim>\<open>io.EOF\<close>. (A peer that sends lines
  for ever, on which the loop of \<^verbatim>\<open>readLines\<close> would not return, is outside the
  model.) The read deadline of \<^verbatim>\<open>setReadDeadline\<close> shows as the read result
  \<open>NetTimeout\<close>.
\<close>

definition ReadString :: "world \<Rightarrow> (string \<times> error option) \<times> world" where
  "ReadString w =
     (case incoming w of
        [] \<Rightarrow> (([], Some IoEOF), w)
      | r # rs \<Rightarrow> (r, w\<lparr>incoming := rs\<rparr>))"

text \<open>\<^verbatim>\<open>func (conn *Conn) readLine() (string, error)\<close>, lines 162-177.\<close>

definition readLine :: "world \<Rightarrow> (string \<times> error option) \<times> world" where
  "readLine w =
     (case ReadString w of
        ((line, Some err), w') \<Rightarrow> (([], Some err), logPrintf (ReadFailure err) w')
      | ((line, None), w') \<Rightarrow> ((TrimSpace line, None), w'))"

text \<open>
  \<^verbatim>\<open>func (conn *Conn) readLines(endCheck func(string) bool) ([]string, error)\<close>,
  lines 182-211. \<open>readLinesLoop\<close> is the \<^verbatim>\<open>for\<close> loop, with the slice \<^verbatim>\<open>lines\<close> as its
  second argument; \<^verbatim>\<open>nil\<close> is the empty list.
\<close>

definition isTimeout :: "error \<Rightarrow> bool" where
  "isTimeout err \<longleftrightarrow> err = NetTimeout"

function readLinesLoop ::
  "(string \<Rightarrow> bool) \<Rightarrow> string list \<Rightarrow> world \<Rightarrow> (string list \<times> error option) \<times> world" where
  "readLinesLoop endCheck lines w =
     (case readLine w of
        ((line, Some err), w') \<Rightarrow>
          if isTimeout err then ((lines, None), w')
          else if err = IoEOF then ((lines, None), w')
          else (([], Some err), logPrintf (ReadError err) w')
      | ((line, None), w') \<Rightarrow>
          if endCheck line then ((lines @ [line], None), w')
          else readLinesLoop endCheck (lines @ [line]) w')"
  by pat_completeness auto
termination
  by (relation "measure (\<lambda>(endCheck, lines, w). length (incoming w))")
     (auto simp: readLine_def ReadString_def logPrintf_def split: list.splits option.splits)

declare readLinesLoop.simps [simp del]

definition readLines ::
  "(string \<Rightarrow> bool) \<Rightarrow> world \<Rightarrow> (string list \<times> error option) \<times> world" where
  "readLines endCheck w = readLinesLoop endCheck [] w"

text \<open>
  \<^verbatim>\<open>func (conn *Conn) writeLine(s string) error\<close>, lines 215-230. The first argument is
  the package-level variable \<^verbatim>\<open>verboseOutput\<close>. A used-up \<open>wresults\<close> means that the
  write and the flush succeed.
\<close>

definition nextWrite :: "world \<Rightarrow> write_result \<times> world" where
  "nextWrite w =
     (case wresults w of
        [] \<Rightarrow> (WriteOk, w)
      | r # rs \<Rightarrow> (r, w\<lparr>wresults := rs\<rparr>))"

definition writeLine :: "bool \<Rightarrow> string \<Rightarrow> world \<Rightarrow> error option \<times> world" where
  "writeLine verboseOutput s w =
     (let w1 = (if verboseOutput then logPrintf (WritingLine s) w else w);
          (r, w2) = nextWrite w1;
          w3 = w2\<lparr>outgoing := outgoing w2 @ [(s @ [CHR 0x0D, CHR 0x0A], r)]\<rparr>
      in case r of
           WriteFails err \<Rightarrow> (Some err, logPrintf (FailureWriting err) w3)
         | FlushFails err \<Rightarrow> (Some err, logPrintf (FlushError err) w3)
         | WriteOk \<Rightarrow> (None, w3))"

subsection \<open>\<^verbatim>\<open>fmt.Sscanf(line, "%d %d", &id, &size)\<close>\<close>

text \<open>
  The scanner of package \<^verbatim>\<open>fmt\<close> (\<^verbatim>\<open>doScanf\<close>, \<^verbatim>\<open>advance\<close>, \<^verbatim>\<open>SkipSpace\<close>,
  \<^verbatim>\<open>scanInt\<close>, \<^verbatim>\<open>scanNumber\<close>) and \<^verbatim>\<open>strconv.ParseInt\<close>, for the one format the
  program uses. The scanner state is the input not yet read. Lines of \<open>2 ^ 30\<close> code
  points and more, where the scanner's own input limit cuts in, are outside the model.

  \<^verbatim>\<open>SkipSpace\<close> with \<^verbatim>\<open>nlIsSpace = false\<close>: white space is skipped, a newline is an
  error (a carriage return is white space whether a newline follows it or not).
\<close>

function SkipSpace :: "string \<Rightarrow> scan_error + string" where
  "SkipSpace s =
     (case s of
        [] \<Rightarrow> Inr []
      | c # _ \<Rightarrow>
          if c = CHR 0x0A then Inl UnexpectedNewline
          else if spaceWidth s = 0 then Inr s
          else SkipSpace (drop (spaceWidth s) s))"
  by pat_completeness auto
termination
  by (relation "measure length") auto

text \<open>
  The loop \<^verbatim>\<open>for isSpace(inputc) && inputc != '\n' { inputc = s.getRune() }\<close> of
  \<^verbatim>\<open>advance\<close>, with the \<^verbatim>\<open>UnreadRune\<close> that follows it.
\<close>

function skipBlanks :: "string \<Rightarrow> string" where
  "skipBlanks s =
     (case s of
        [] \<Rightarrow> []
      | c # _ \<Rightarrow>
          if c = CHR 0x0A \<or> spaceWidth s = 0 then s
          else skipBlanks (drop (spaceWidth s) s))"
  by pat_completeness auto
termination
  by (relation "measure length") auto

declare SkipSpace.simps [simp del] skipBlanks.simps [simp del]

text \<open>
  \<^verbatim>\<open>advance\<close> on the space of the format (a space that stands alone, no newline in the
  format): the end of the input, or at least one white space that is no newline.
\<close>

definition advanceSpace :: "string \<Rightarrow> scan_error + string" where
  "advanceSpace s =
     (case s of
        [] \<Rightarrow> Inr []
      | c # _ \<Rightarrow>
          if spaceWidth s = 0 then Inl ExpectedSpace
          else if c = CHR 0x0A then Inl NewlineInInput
          else Inr (skipBlanks s))"

definition isDigit :: "char \<Rightarrow> bool" where
  "isDigit c \<longleftrightarrow> (48::nat) \<le> of_char c \<and> of_char c \<le> (57::nat)"

definition digitVal :: "char \<Rightarrow> nat" where
  "digitVal c = of_char c - 48"

text \<open>\<^verbatim>\<open>decimalDigits = "0123456789_"\<close>: the scanner takes underscores into the token.\<close>

definition decimalDigit :: "char \<Rightarrow> bool" where
  "decimalDigit c \<longleftrightarrow> isDigit c \<or> c = CHR ''_''"

definition isSign :: "char \<Rightarrow> bool" where
  "isSign c \<longleftrightarrow> c = CHR ''+'' \<or> c = CHR ''-''"

text \<open>
  \<^verbatim>\<open>strconv.ParseUint(s, 10, 64)\<close>: the loop over the bytes with the running value
  \<open>n\<close>; base 10 is given, so an underscore is a syntax error as every other byte that
  is no digit. The result is the pair of Go's two results.
\<close>

definition maxVal :: nat where
  "maxVal = 2 ^ 64 - 1"

definition cutoffUint :: nat where
  "cutoffUint = maxVal div 10 + 1"

fun ParseUintLoop :: "nat \<Rightarrow> string \<Rightarrow> nat \<times> scan_error option" where
  "ParseUintLoop n [] = (n, None)"
| "ParseUintLoop n (c # cs) =
     (if \<not> isDigit c then (0, Some ErrSyntax)
      else if n \<ge> cutoffUint then (maxVal, Some ErrRange)
      else if n * 10 + digitVal c > maxVal then (maxVal, Some ErrRange)
      else ParseUintLoop (n * 10 + digitVal c) cs)"

definition ParseUint :: "string \<Rightarrow> nat \<times> scan_error option" where
  "ParseUint s = (if s = [] then (0, Some ErrSyntax) else ParseUintLoop 0 s)"

text \<open>\<^verbatim>\<open>strconv.ParseInt(s, 10, 64)\<close>.\<close>

definition cutoffInt :: nat where
  "cutoffInt = 2 ^ 63"

definition ParseInt :: "string \<Rightarrow> int \<times> scan_error option" where
  "ParseInt s0 =
     (if s0 = [] then (0, Some ErrSyntax)
      else
        let neg = (hd s0 = CHR ''-'');
            s = (if isSign (hd s0) then tl s0 else s0);
            (un, err) = ParseUint s
        in if err \<noteq> None \<and> err \<noteq> Some ErrRange then (0, err)
           else if \<not> neg \<and> un \<ge> cutoffInt then (int cutoffInt - 1, Some ErrRange)
           else if neg \<and> un > cutoffInt then (- int cutoffInt, Some ErrRange)
           else (if neg then - int un else int un, None))"

text \<open>
  \<^verbatim>\<open>scanInt('d', 64)\<close>: skip white space, fail at the end of the input, take an
  optional sign, then \<^verbatim>\<open>scanNumber\<close> (fail at the end of the input, at least one
  character of \<^verbatim>\<open>decimalDigits\<close>, then all that follow), then \<^verbatim>\<open>ParseInt\<close> on the
  token. The result is the number and the input left.
\<close>

definition scanInt :: "string \<Rightarrow> scan_error + (go_int \<times> string)" where
  "scanInt s0 =
     (case SkipSpace s0 of
        Inl e \<Rightarrow> Inl e
      | Inr s \<Rightarrow>
          if s = [] then Inl ScanEOF
          else
            let sgn = (if isSign (hd s) then [hd s] else []);
                s1 = drop (length sgn) s
            in if s1 = [] then Inl ScanEOF
               else if takeWhile decimalDigit s1 = [] then Inl ExpectedInteger
               else (case ParseInt (sgn @ takeWhile decimalDigit s1) of
                       (i, Some e) \<Rightarrow> Inl e
                     | (i, None) \<Rightarrow> Inr (word_of_int i, dropWhile decimalDigit s1)))"

text \<open>
  \<^verbatim>\<open>doScanf\<close> on the format \<^verbatim>\<open>"%d %d"\<close> with two \<^verbatim>\<open>*int\<close> operands: the result is
  \<^verbatim>\<open>(countScanned, err)\<close> and the values of \<^verbatim>\<open>id\<close> and \<^verbatim>\<open>size\<close>, both declared (so
  zero) just before the call. Whatever follows the second number is left unread.
\<close>

definition Sscanf :: "string \<Rightarrow> nat \<times> scan_error option \<times> go_int \<times> go_int" where
  "Sscanf line =
     (case SkipSpace line of
        Inl e \<Rightarrow> (0, Some e, 0, 0)
      | Inr s1 \<Rightarrow>
     (case scanInt s1 of
        Inl e \<Rightarrow> (0, Some e, 0, 0)
      | Inr (id', s2) \<Rightarrow>
     (case advanceSpace s2 of
        Inl e \<Rightarrow> (1, Some e, id', 0)
      | Inr s3 \<Rightarrow>
     (case SkipSpace s3 of
        Inl e \<Rightarrow> (1, Some e, id', 0)
      | Inr s4 \<Rightarrow>
     (case scanInt s4 of
        Inl e \<Rightarrow> (1, Some e, id', 0)
      | Inr (size', s5) \<Rightarrow> (2, None, id', size'))))))"

subsection \<open>checkMailbox\<close>

text \<open>
  \<^verbatim>\<open>func checkMailbox(host, user, pass string, warnSize, quotaWarnSize int) error\<close>,
  lines 234-357, cut at its own comments into the part after the dial
  (\<open>checkGreeting\<close>, lines 253-268), the USER exchange (\<open>checkUser\<close>, lines 270-288), the
  PASS exchange (\<open>checkPass\<close>, lines 289-307) and the LIST part (\<open>checkList\<close>, lines
  309-356) with its \<^verbatim>\<open>for _, line := range lines\<close> loop (\<open>rangeLines\<close>, lines 319-348).
  Each part ends by running the next one. The first argument of every part is the
  package-level variable \<^verbatim>\<open>verboseOutput\<close>; the result is Go's \<^verbatim>\<open>error\<close>, \<open>None\<close>
  for \<^verbatim>\<open>nil\<close>.
\<close>

definition endOK :: "string \<Rightarrow> bool" where
  "endOK s \<longleftrightarrow> HasPrefix s ''+OK''"

definition endDot :: "string \<Rightarrow> bool" where
  "endDot s \<longleftrightarrow> s = ''.''"

fun rangeLines ::
  "bool \<Rightarrow> go_int \<Rightarrow> string list \<Rightarrow> go_int \<Rightarrow> world \<Rightarrow> (error option \<times> go_int) \<times> world" where
  "rangeLines verboseOutput warnSize [] sizeOfAllMessages w = ((None, sizeOfAllMessages), w)"
| "rangeLines verboseOutput warnSize (line # rest) sizeOfAllMessages w =
     (let w1 = (if verboseOutput then logPrintf (ReadLISTLine line) w else w)
      in if HasPrefix line ''+OK'' \<or> line = ''.''
         then rangeLines verboseOutput warnSize rest sizeOfAllMessages w1
         else
           (case Sscanf line of
              (countScanned, Some e, id', size') \<Rightarrow>
                ((Some (ErrorsNew ''Unable to parse LIST line''), sizeOfAllMessages),
                 logPrintf (ListParseFailure e) w1)
            | (countScanned, None, id', size') \<Rightarrow>
                if countScanned \<noteq> 2
                then ((Some (ErrorsNew ''Failed to parse LIST line''), sizeOfAllMessages),
                      logPrintf (ListNotFullyParsed line) w1)
                else
                  let w2 = (if sint warnSize < sint size'
                            then logPrintf (WarningMessage id' size') w1 else w1)
                  in rangeLines verboseOutput warnSize rest (sizeOfAllMessages + size') w2))"

text \<open>
  Line 310 assigns the result of \<^verbatim>\<open>writeLine("LIST")\<close> to \<^verbatim>\<open>err\<close> and line 311 assigns
  \<^verbatim>\<open>err\<close> again: the first value is never read.
\<close>

definition checkList :: "bool \<Rightarrow> go_int \<Rightarrow> go_int \<Rightarrow> world \<Rightarrow> error option \<times> world" where
  "checkList verboseOutput warnSize quotaWarnSize w =
     (let (err, w1) = writeLine verboseOutput ''LIST'' w;
          ((lines, err), w2) = readLines endDot w1
      in case err of
           Some e \<Rightarrow> (Some e, logPrintf (FailedToListMessages e) w2)
         | None \<Rightarrow>
             (case rangeLines verboseOutput warnSize lines 0 w2 of
                ((Some e, sizeOfAllMessages), w3) \<Rightarrow> (Some e, w3)
              | ((None, sizeOfAllMessages), w3) \<Rightarrow>
                  let w4 = (if verboseOutput
                            then logPrintf (TotalSize sizeOfAllMessages) w3 else w3);
                      w5 = (if sint quotaWarnSize < sint sizeOfAllMessages
                            then logPrintf (WarningMailbox sizeOfAllMessages) w4 else w4)
                  in (None, w5)))"

definition checkPass ::
  "bool \<Rightarrow> string \<Rightarrow> go_int \<Rightarrow> go_int \<Rightarrow> world \<Rightarrow> error option \<times> world" where
  "checkPass verboseOutput pass warnSize quotaWarnSize w =
     (case writeLine verboseOutput (''PASS '' @ pass) w of
        (Some e, w1) \<Rightarrow> (Some e, logPrintf (LoginFailurePass e) w1)
      | (None, w1) \<Rightarrow>
          (case readLines endOK w1 of
             ((lines, Some e), w2) \<Rightarrow> (Some e, logPrintf (FailedToReadLinesPass e) w2)
           | ((lines, None), w2) \<Rightarrow>
               if length lines \<noteq> 1 \<or> \<not> HasPrefix (lines ! 0) ''+OK''
               then (Some (ErrorsNew ''Unexpected PASS respose''), logPrintf UnexpectedPASS w2)
               else checkList verboseOutput warnSize quotaWarnSize w2))"

definition checkUser ::
  "bool \<Rightarrow> string \<Rightarrow> string \<Rightarrow> go_int \<Rightarrow> go_int \<Rightarrow> world \<Rightarrow> error option \<times> world" where
  "checkUser verboseOutput user pass warnSize quotaWarnSize w =
     (case writeLine verboseOutput (''USER '' @ user) w of
        (Some e, w1) \<Rightarrow> (Some e, logPrintf (LoginFailureUser e) w1)
      | (None, w1) \<Rightarrow>
          (case readLines endOK w1 of
             ((lines, Some e), w2) \<Rightarrow> (Some e, logPrintf (FailedToReadLines e) w2)
           | ((lines, None), w2) \<Rightarrow>
               if length lines \<noteq> 1 \<or> \<not> HasPrefix (lines ! 0) ''+OK''
               then (Some (ErrorsNew ''Unexpected user respose''), logPrintf UnexpectedUSER w2)
               else checkPass verboseOutput pass warnSize quotaWarnSize w2))"

definition checkGreeting ::
  "bool \<Rightarrow> string \<Rightarrow> string \<Rightarrow> go_int \<Rightarrow> go_int \<Rightarrow> world \<Rightarrow> error option \<times> world" where
  "checkGreeting verboseOutput user pass warnSize quotaWarnSize w =
     (case readLines endOK w of
        ((lines, Some e), w1) \<Rightarrow> (Some e, logPrintf (ErrorReadingLines e) w1)
      | ((lines, None), w1) \<Rightarrow>
          if length lines \<noteq> 1
          then (Some (ErrorsNew ''Unexpected line count''),
                logPrintf (UnexpectedNumberOfLines (length lines)) w1)
          else if \<not> HasPrefix (lines ! 0) ''+OK ''
          then (Some (ErrorsNew ''Invalid greeting''), logPrintf (GreetingNotOK (lines ! 0)) w1)
          else checkUser verboseOutput user pass warnSize quotaWarnSize w1)"

text \<open>
  \<^verbatim>\<open>net.Dial("tcp4", hostPort)\<close> fails with \<open>dialErr\<close>, or opens the connection; the port
  is \<^verbatim>\<open>connectPort = 110\<close>.
\<close>

definition checkMailbox ::
  "bool \<Rightarrow> string \<Rightarrow> string \<Rightarrow> string \<Rightarrow> go_int \<Rightarrow> go_int \<Rightarrow> world \<Rightarrow> error option \<times> world" where
  "checkMailbox verboseOutput host user pass warnSize quotaWarnSize w =
     (let w1 = (if verboseOutput then logPrintf (Connecting host) w else w);
          hostPort = host @ '':110''
      in case dialErr w1 of
           Some e \<Rightarrow> (Some e, logPrintf (FailedToConnect hostPort e) w1)
         | None \<Rightarrow>
             let w2 = w1\<lparr>status := Open\<rparr>;
                 w3 = (if verboseOutput
                       then logPrintf (Connected hostPort (remoteAddr w2)) w2 else w2)
             in checkGreeting verboseOutput user pass warnSize quotaWarnSize w3)"

text \<open>
  The world in which \<^verbatim>\<open>checkMailbox\<close> reads the greeting when the dial succeeds: lines
  237-251 run, the connection open.
\<close>

definition afterDial :: "bool \<Rightarrow> string \<Rightarrow> world \<Rightarrow> world" where
  "afterDial verboseOutput host w =
     (let w1 = (if verboseOutput then logPrintf (Connecting host) w else w);
          hostPort = host @ '':110'';
          w2 = w1\<lparr>status := Open\<rparr>
      in if verboseOutput then logPrintf (Connected hostPort (remoteAddr w2)) w2 else w2)"

subsection \<open>Reading a run: the log, the LIST entries, sample servers\<close>

text \<open>
  The five \<^verbatim>\<open>log.Printf\<close> calls that stand under \<^verbatim>\<open>if verboseOutput\<close> (lines 216, 237,
  247, 320 and 350), and the two that print a warning (lines 344 and 354).
\<close>

fun verboseOnly :: "log_entry \<Rightarrow> bool" where
  "verboseOnly (WritingLine _) = True"
| "verboseOnly (Connecting _) = True"
| "verboseOnly (Connected _ _) = True"
| "verboseOnly (ReadLISTLine _) = True"
| "verboseOnly (TotalSize _) = True"
| "verboseOnly _ = False"

fun isWarning :: "log_entry \<Rightarrow> bool" where
  "isWarning (WarningMessage _ _) = True"
| "isWarning (WarningMailbox _) = True"
| "isWarning _ = False"

definition warnings :: "world \<Rightarrow> log_entry list" where
  "warnings w = filter isWarning (logged w)"

text \<open>The world with the verbose-only lines taken out of its log.\<close>

definition quiet :: "world \<Rightarrow> world" where
  "quiet w = w\<lparr>logged := filter (\<lambda>e. \<not> verboseOnly e) (logged w)\<rparr>"

text \<open>
  The lines of a LIST response the loop does not skip (line 327), whether
  \<^verbatim>\<open>Sscanf\<close> returns no error on a line, and the \<^verbatim>\<open>(id, size)\<close> it stores.
\<close>

definition isEntryLine :: "string \<Rightarrow> bool" where
  "isEntryLine line \<longleftrightarrow> \<not> (HasPrefix line ''+OK'' \<or> line = ''.'')"

definition scans :: "string \<Rightarrow> bool" where
  "scans line \<longleftrightarrow> fst (snd (Sscanf line)) = None"

definition entryOf :: "string \<Rightarrow> go_int \<times> go_int" where
  "entryOf line = snd (snd (Sscanf line))"

definition entries :: "string list \<Rightarrow> (go_int \<times> go_int) list" where
  "entries lines = map entryOf (filter isEntryLine lines)"



definition isInteger :: "string \<Rightarrow> bool" where
  "isInteger t \<longleftrightarrow>
     (let ds = (if t \<noteq> [] \<and> isSign (hd t) then tl t else t)
      in ds \<noteq> [] \<and> list_all isDigit ds)"


text \<open>
  The number an integer text stands for (an optional sign, then decimal digits),
  whether it fits Go's 64-bit \<^verbatim>\<open>int\<close>, and the blanks that may separate two numbers
  inside a line: the ASCII white space other than the newline.
\<close>

definition decimalValue :: "string \<Rightarrow> nat" where
  "decimalValue ds = foldl (\<lambda>n c. n * 10 + digitVal c) 0 ds"

definition intValue :: "string \<Rightarrow> int" where
  "intValue t =
     (if t \<noteq> [] \<and> hd t = CHR ''-'' then - int (decimalValue (tl t))
      else if t \<noteq> [] \<and> hd t = CHR ''+'' then int (decimalValue (tl t))
      else int (decimalValue t))"

definition fitsInt :: "string \<Rightarrow> bool" where
  "fitsInt t \<longleftrightarrow> - (2 ^ 63) \<le> intValue t \<and> intValue t < 2 ^ 63"

definition isBlank :: "char \<Rightarrow> bool" where
  "isBlank c \<longleftrightarrow> asciiSpace c \<and> c \<noteq> CHR 0x0A"




text \<open>
  Sample servers for the closed examples: a server that accepts the dial and sends the
  given lines, each ended by CR LF, then closes.
\<close>

definition freshWorld :: world where
  "freshWorld =
     \<lparr>dialErr = None, remoteAddr = ''192.0.2.1:110'', status = NotConnected,
      incoming = [], wresults = [], outgoing = [], logged = []\<rparr>"

definition serverSends :: "string list \<Rightarrow> world" where
  "serverSends ls = freshWorld\<lparr>incoming := map (\<lambda>l. (l @ [CHR 0x0D, CHR 0x0A], None)) ls\<rparr>"

section \<open>Lemmas\<close>

subsection \<open>The line session\<close>

lemma readLine_Nil:
  "incoming w = [] \<Longrightarrow> readLine w = (([], Some IoEOF), logPrintf (ReadFailure IoEOF) w)"
  by (simp add: readLine_def ReadString_def)

lemma readLine_line:
  "incoming w = (l, None) # rs \<Longrightarrow> readLine w = ((TrimSpace l, None), w\<lparr>incoming := rs\<rparr>)"
  by (simp add: readLine_def ReadString_def)

lemma readLine_err:
  "incoming w = (l, Some e) # rs \<Longrightarrow>
   readLine w = (([], Some e), logPrintf (ReadFailure e) (w\<lparr>incoming := rs\<rparr>))"
  by (simp add: readLine_def ReadString_def)

lemma loop_Nil:
  "incoming w = [] \<Longrightarrow>
   readLinesLoop endCheck acc w = ((acc, None), logPrintf (ReadFailure IoEOF) w)"
  by (subst readLinesLoop.simps) (simp add: readLine_Nil isTimeout_def)

lemma loop_err:
  "incoming w = (l, Some e) # rs \<Longrightarrow>
   readLinesLoop endCheck acc w =
     (if e = NetTimeout \<or> e = IoEOF
      then ((acc, None), logPrintf (ReadFailure e) (w\<lparr>incoming := rs\<rparr>))
      else (([], Some e),
            logPrintf (ReadError e) (logPrintf (ReadFailure e) (w\<lparr>incoming := rs\<rparr>))))"
  by (subst readLinesLoop.simps) (simp add: readLine_err isTimeout_def)

lemma loop_line:
  "incoming w = (l, None) # rs \<Longrightarrow>
   readLinesLoop endCheck acc w =
     (if endCheck (TrimSpace l) then ((acc @ [TrimSpace l], None), w\<lparr>incoming := rs\<rparr>)
      else readLinesLoop endCheck (acc @ [TrimSpace l]) (w\<lparr>incoming := rs\<rparr>))"
  by (subst readLinesLoop.simps) (simp add: readLine_line)

subsection \<open>What each step leaves alone\<close>

lemma logPrintf_fields [simp]:
  "dialErr (logPrintf e w) = dialErr w"
  "remoteAddr (logPrintf e w) = remoteAddr w"
  "status (logPrintf e w) = status w"
  "incoming (logPrintf e w) = incoming w"
  "wresults (logPrintf e w) = wresults w"
  "outgoing (logPrintf e w) = outgoing w"
  "logged (logPrintf e w) = logged w @ [e]"
  by (simp_all add: logPrintf_def)

lemma loop_frame:
  "status (snd (readLinesLoop endCheck acc w)) = status w \<and>
   outgoing (snd (readLinesLoop endCheck acc w)) = outgoing w \<and>
   wresults (snd (readLinesLoop endCheck acc w)) = wresults w"
proof (induction xs \<equiv> "incoming w" arbitrary: w acc)
  case Nil
  then show ?case by (simp add: loop_Nil)
next
  case (Cons r rs)
  obtain l e where r: "r = (l, e)" by (cases r)
  show ?case
  proof (cases e)
    case None
    with Cons(2) r have inc: "incoming w = (l, None) # rs" by simp
    have "rs = incoming (w\<lparr>incoming := rs\<rparr>)" by simp
    from Cons(1) [OF this] show ?thesis by (simp add: loop_line [OF inc])
  next
    case (Some err)
    with Cons(2) r have "incoming w = (l, Some err) # rs" by simp
    then show ?thesis by (simp add: loop_err)
  qed
qed

lemma readLines_frame:
  "readLines endCheck w = (r, w1) \<Longrightarrow>
   status w1 = status w \<and> outgoing w1 = outgoing w \<and> wresults w1 = wresults w"
  using loop_frame [of endCheck "[]" w] by (simp add: readLines_def)

lemma writeLine_frame:
  "writeLine v s w = (err, w1) \<Longrightarrow>
   status w1 = status w \<and> incoming w1 = incoming w \<and>
   length (outgoing w1) = Suc (length (outgoing w))"
  by (auto simp: writeLine_def nextWrite_def Let_def split: list.splits write_result.splits)

lemma rangeLines_keeps:
  "status (snd (rangeLines v ws lines t w)) = status w \<and>
   outgoing (snd (rangeLines v ws lines t w)) = outgoing w"
proof (induction lines arbitrary: v t w)
  case Nil
  show ?case by simp
next
  case (Cons line rest)
  obtain n err i s where sc: "Sscanf line = (n, err, i, s)" by (cases "Sscanf line")
  show ?case
    by (cases err) (simp_all add: sc Cons.IH Let_def)
qed

lemma rangeLines_frame:
  "rangeLines v ws lines t w = (r, w1) \<Longrightarrow> status w1 = status w \<and> outgoing w1 = outgoing w"
  using rangeLines_keeps [of v ws lines t w] by simp

lemma checkList_frame:
  "checkList v ws q w = (r, w1) \<Longrightarrow>
   status w1 = status w \<and> length (outgoing w1) = Suc (length (outgoing w))"
  by (auto simp: checkList_def Let_def split: prod.splits option.splits
      dest!: writeLine_frame readLines_frame rangeLines_frame)

lemma checkPass_frame:
  "checkPass v pass ws q w = (r, w1) \<Longrightarrow>
   status w1 = status w \<and> length (outgoing w) < length (outgoing w1)"
  by (auto simp: checkPass_def split: prod.splits option.splits if_splits
      dest!: writeLine_frame readLines_frame checkList_frame)

lemma checkUser_frame:
  "checkUser v user pass ws q w = (r, w1) \<Longrightarrow>
   status w1 = status w \<and> length (outgoing w) < length (outgoing w1)"
  by (auto simp: checkUser_def split: prod.splits option.splits if_splits
      dest!: writeLine_frame readLines_frame checkPass_frame)

lemma checkGreeting_status:
  "checkGreeting v user pass ws q w = (r, w1) \<Longrightarrow> status w1 = status w"
  by (auto simp: checkGreeting_def split: prod.splits option.splits if_splits
      dest!: readLines_frame checkUser_frame)

lemma checkMailbox_dialed:
  "dialErr w = None \<Longrightarrow>
   checkMailbox v host user pass ws q w = checkGreeting v user pass ws q (afterDial v host w)"
  by (simp add: checkMailbox_def afterDial_def Let_def)

lemma afterDial_fields:
  "status (afterDial v host w) = Open"
  "incoming (afterDial v host w) = incoming w"
  "outgoing (afterDial v host w) = outgoing w"
  "wresults (afterDial v host w) = wresults w"
  by (simp_all add: afterDial_def Let_def)

lemma readLines_first_ends:
  assumes "incoming w = [] \<or>
           (\<exists>l e rest. incoming w = (l, Some e) # rest \<and> (e = NetTimeout \<or> e = IoEOF))"
  shows "\<exists>w'. readLines endCheck w = (([], None), w')"
  using assms by (auto simp: readLines_def loop_Nil loop_err)

subsection \<open>Erasing the verbose lines\<close>

lemma quiet_fields [simp]:
  "dialErr (quiet w) = dialErr w"
  "remoteAddr (quiet w) = remoteAddr w"
  "status (quiet w) = status w"
  "incoming (quiet w) = incoming w"
  "wresults (quiet w) = wresults w"
  "outgoing (quiet w) = outgoing w"
  "logged (quiet w) = filter (\<lambda>e. \<not> verboseOnly e) (logged w)"
  by (simp_all add: quiet_def)

lemma quiet_logPrintf:
  "quiet (logPrintf e w) = (if verboseOnly e then quiet w else logPrintf e (quiet w))"
  by (simp add: quiet_def logPrintf_def)

lemma quiet_update:
  "quiet (w\<lparr>incoming := i\<rparr>) = (quiet w)\<lparr>incoming := i\<rparr>"
  "quiet (w\<lparr>wresults := r\<rparr>) = (quiet w)\<lparr>wresults := r\<rparr>"
  "quiet (w\<lparr>outgoing := out\<rparr>) = (quiet w)\<lparr>outgoing := out\<rparr>"
  "quiet (w\<lparr>status := st\<rparr>) = (quiet w)\<lparr>status := st\<rparr>"
  by (simp_all add: quiet_def)

lemma readLine_quiet: "readLine (quiet w) = apsnd quiet (readLine w)"
  by (simp add: readLine_def ReadString_def quiet_logPrintf quiet_update
      split: list.splits prod.splits option.splits)

lemma loop_quiet:
  "readLinesLoop endCheck acc (quiet w) = apsnd quiet (readLinesLoop endCheck acc w)"
proof (induction xs \<equiv> "incoming w" arbitrary: w acc)
  case Nil
  then show ?case by (simp add: loop_Nil quiet_logPrintf)
next
  case (Cons r rs)
  obtain l e where r: "r = (l, e)" by (cases r)
  show ?case
  proof (cases e)
    case None
    with Cons(2) r have inc: "incoming w = (l, None) # rs" by simp
    then have inc': "incoming (quiet w) = (l, None) # rs" by simp
    have "rs = incoming (w\<lparr>incoming := rs\<rparr>)" by simp
    from Cons(1) [OF this] show ?thesis
      by (simp add: loop_line [OF inc] loop_line [OF inc'] quiet_update)
  next
    case (Some err)
    with Cons(2) r have inc: "incoming w = (l, Some err) # rs" by simp
    then have inc': "incoming (quiet w) = (l, Some err) # rs" by simp
    show ?thesis
      by (simp add: loop_err [OF inc] loop_err [OF inc'] quiet_update quiet_logPrintf)
  qed
qed

lemma readLines_quiet: "readLines endCheck (quiet w) = apsnd quiet (readLines endCheck w)"
  by (simp add: readLines_def loop_quiet)

lemma writeLine_quiet: "writeLine False s (quiet w) = apsnd quiet (writeLine v s w)"
  by (simp add: writeLine_def nextWrite_def Let_def quiet_logPrintf quiet_update
      split: list.splits write_result.splits)

lemma rangeLines_quiet:
  "rangeLines False ws lines t (quiet w) = apsnd quiet (rangeLines v ws lines t w)"
proof (induction lines arbitrary: v t w)
  case Nil
  show ?case by simp
next
  case (Cons line rest)
  obtain n err i s where sc: "Sscanf line = (n, err, i, s)" by (cases "Sscanf line")
  have a: "rangeLines False ws rest t' (quiet w') = apsnd quiet (rangeLines True ws rest t' w')"
    and b: "rangeLines False ws rest t' (quiet w') = apsnd quiet (rangeLines False ws rest t' w')"
    for t' w'
    by (rule Cons.IH)+
  show ?case
    by (cases err; cases v) (simp_all add: sc Let_def quiet_logPrintf a [symmetric] b [symmetric])
qed

lemma checkList_quiet:
  "checkList False ws q (quiet w) = apsnd quiet (checkList v ws q w)"
proof -
  obtain err w1 where wl: "writeLine v ''LIST'' w = (err, w1)"
    by (cases "writeLine v ''LIST'' w")
  then have wl': "writeLine False ''LIST'' (quiet w) = (err, quiet w1)"
    using writeLine_quiet [of "''LIST''" w v] by simp
  obtain lines e w2 where rl: "readLines endDot w1 = ((lines, e), w2)"
    by (cases "readLines endDot w1") auto
  then have rl': "readLines endDot (quiet w1) = ((lines, e), quiet w2)"
    by (simp add: readLines_quiet)
  obtain e' tot w3 where rg: "rangeLines v ws lines 0 w2 = ((e', tot), w3)"
    by (cases "rangeLines v ws lines 0 w2") auto
  then have rg': "rangeLines False ws lines 0 (quiet w2) = ((e', tot), quiet w3)"
    by (simp add: rangeLines_quiet [of ws lines 0 w2 v])
  from wl wl' rl rl' rg rg' show ?thesis
    by (cases e; cases e'; cases v) (simp_all add: checkList_def Let_def quiet_logPrintf)
qed

lemma checkPass_quiet:
  "checkPass False pass ws q (quiet w) = apsnd quiet (checkPass v pass ws q w)"
proof -
  obtain err w1 where wl: "writeLine v (''PASS '' @ pass) w = (err, w1)"
    by (cases "writeLine v (''PASS '' @ pass) w")
  then have wl': "writeLine False (''PASS '' @ pass) (quiet w) = (err, quiet w1)"
    using writeLine_quiet [of "''PASS '' @ pass" w v] by simp
  obtain lines e w2 where rl: "readLines endOK w1 = ((lines, e), w2)"
    by (cases "readLines endOK w1") auto
  then have rl': "readLines endOK (quiet w1) = ((lines, e), quiet w2)"
    by (simp add: readLines_quiet)
  from wl wl' rl rl' checkList_quiet [of ws q w2 v] show ?thesis
    by (cases err; cases e) (simp_all add: checkPass_def quiet_logPrintf)
qed

lemma checkUser_quiet:
  "checkUser False user pass ws q (quiet w) = apsnd quiet (checkUser v user pass ws q w)"
proof -
  obtain err w1 where wl: "writeLine v (''USER '' @ user) w = (err, w1)"
    by (cases "writeLine v (''USER '' @ user) w")
  then have wl': "writeLine False (''USER '' @ user) (quiet w) = (err, quiet w1)"
    using writeLine_quiet [of "''USER '' @ user" w v] by simp
  obtain lines e w2 where rl: "readLines endOK w1 = ((lines, e), w2)"
    by (cases "readLines endOK w1") auto
  then have rl': "readLines endOK (quiet w1) = ((lines, e), quiet w2)"
    by (simp add: readLines_quiet)
  from wl wl' rl rl' checkPass_quiet [of pass ws q w2 v] show ?thesis
    by (cases err; cases e) (simp_all add: checkUser_def quiet_logPrintf)
qed

lemma checkGreeting_quiet:
  "checkGreeting False user pass ws q (quiet w) = apsnd quiet (checkGreeting v user pass ws q w)"
proof -
  obtain lines e w1 where rl: "readLines endOK w = ((lines, e), w1)"
    by (cases "readLines endOK w") auto
  then have rl': "readLines endOK (quiet w) = ((lines, e), quiet w1)"
    by (simp add: readLines_quiet)
  from rl rl' checkUser_quiet [of user pass ws q w1 v] show ?thesis
    by (cases e) (simp_all add: checkGreeting_def quiet_logPrintf)
qed

lemma checkMailbox_quiet:
  "checkMailbox False host user pass ws q (quiet w) =
   apsnd quiet (checkMailbox v host user pass ws q w)"
proof (cases "dialErr w")
  case (Some e)
  then show ?thesis
    by (cases v) (simp_all add: checkMailbox_def Let_def quiet_logPrintf)
next
  case None
  define w3 where
    "w3 = (let w1 = (if v then logPrintf (Connecting host) w else w);
               w2 = w1\<lparr>status := Open\<rparr>
           in if v then logPrintf (Connected (host @ '':110'') (remoteAddr w2)) w2 else w2)"
  have q3: "quiet w3 = (quiet w)\<lparr>status := Open\<rparr>"
    by (cases v) (simp_all add: w3_def Let_def quiet_logPrintf quiet_update)
  have T: "checkMailbox v host user pass ws q w = checkGreeting v user pass ws q w3"
    using None by (cases v) (simp_all add: checkMailbox_def Let_def w3_def)
  have F: "checkMailbox False host user pass ws q (quiet w) =
           checkGreeting False user pass ws q (quiet w3)"
    using None by (simp add: checkMailbox_def Let_def q3)
  show ?thesis
    by (simp only: T F checkGreeting_quiet [of user pass ws q w3 v])
qed

lemma warnings_quiet: "warnings (quiet w) = warnings w"
proof -
  have "\<not> verboseOnly e \<and> isWarning e \<longleftrightarrow> isWarning e" for e
    by (cases e) simp_all
  then show ?thesis by (simp add: warnings_def)
qed

lemma quiet_idem: "list_all (\<lambda>e. \<not> verboseOnly e) (logged w) \<Longrightarrow> quiet w = w"
  by (simp add: quiet_def list_all_iff)

subsection \<open>The loop over the LIST lines\<close>

lemma Sscanf_count: "Sscanf line = (n, None, i, s) \<Longrightarrow> n = 2"
  by (auto simp: Sscanf_def split: sum.splits prod.splits)

lemma rangeLines_skip:
  "\<not> isEntryLine line \<Longrightarrow>
   rangeLines v ws (line # rest) t w =
   rangeLines v ws rest t (if v then logPrintf (ReadLISTLine line) w else w)"
  by (simp add: isEntryLine_def Let_def)

lemma rangeLines_entry:
  assumes "isEntryLine line" and "scans line" and "entryOf line = (i, s)"
  shows "rangeLines v ws (line # rest) t w =
         rangeLines v ws rest (t + s)
           (let w1 = (if v then logPrintf (ReadLISTLine line) w else w)
            in if sint ws < sint s then logPrintf (WarningMessage i s) w1 else w1)"
proof -
  obtain n e where sc: "Sscanf line = (n, e, i, s)"
    using assms(3) by (cases "Sscanf line") (auto simp: entryOf_def)
  with assms(2) have e: "e = None" by (simp add: scans_def)
  with sc have "n = 2" by (simp add: Sscanf_count)
  with sc e assms(1) show ?thesis by (simp add: isEntryLine_def Let_def)
qed




lemma warnings_logPrintf:
  "warnings (logPrintf e w) = (if isWarning e then warnings w @ [e] else warnings w)"
  by (simp add: warnings_def)

lemma rangeLines_all:
  assumes "\<forall>l\<in>set lines. isEntryLine l \<longrightarrow> scans l"
  shows "fst (rangeLines v ws lines t w) = (None, t + sum_list (map snd (entries lines))) \<and>
         warnings (snd (rangeLines v ws lines t w)) =
           warnings w @
           map (\<lambda>(i, s). WarningMessage i s) (filter (\<lambda>(i, s). sint ws < sint s) (entries lines))"
  using assms
proof (induction lines arbitrary: t w)
  case Nil
  show ?case by (simp add: entries_def)
next
  case (Cons line lines)
  then have IH: "fst (rangeLines v ws lines t' w') = (None, t' + sum_list (map snd (entries lines))) \<and>
         warnings (snd (rangeLines v ws lines t' w')) =
           warnings w' @
           map (\<lambda>(i, s). WarningMessage i s) (filter (\<lambda>(i, s). sint ws < sint s) (entries lines))"
    for t' w' by simp
  show ?case
  proof (cases "isEntryLine line")
    case False
    then have "entries (line # lines) = entries lines" by (simp add: entries_def)
    have "warnings (if v then logPrintf (ReadLISTLine line) w else w) = warnings w"
      by (simp add: warnings_logPrintf)
    with \<open>entries (line # lines) = entries lines\<close> show ?thesis
      by (simp only: rangeLines_skip [OF False] IH)
  next
    case True
    with Cons.prems have sc: "scans line" by simp
    obtain i s where en: "entryOf line = (i, s)" by (cases "entryOf line")
    with True have "entries (line # lines) = (i, s) # entries lines" by (simp add: entries_def)
    moreover have "warnings (let w1 = (if v then logPrintf (ReadLISTLine line) w else w)
            in if sint ws < sint s then logPrintf (WarningMessage i s) w1 else w1) =
          warnings w @ (if sint ws < sint s then [WarningMessage i s] else [])"
      by (simp add: Let_def warnings_logPrintf)
    ultimately show ?thesis
      by (simp add: rangeLines_entry [OF True sc en] IH add.assoc del: rangeLines.simps)
  qed
qed

lemma loop_warnings: "warnings (snd (readLinesLoop endCheck acc w)) = warnings w"
proof (induction xs \<equiv> "incoming w" arbitrary: w acc)
  case Nil
  then show ?case by (simp add: loop_Nil warnings_logPrintf)
next
  case (Cons r rs)
  obtain l e where r: "r = (l, e)" by (cases r)
  show ?case
  proof (cases e)
    case None
    with Cons(2) r have inc: "incoming w = (l, None) # rs" by simp
    have "rs = incoming (w\<lparr>incoming := rs\<rparr>)" by simp
    from Cons(1) [OF this] show ?thesis by (simp add: loop_line [OF inc] warnings_def)
  next
    case (Some err)
    with Cons(2) r have "incoming w = (l, Some err) # rs" by simp
    then show ?thesis by (simp add: loop_err warnings_logPrintf) (simp add: warnings_def)
  qed
qed

lemma readLines_warnings: "readLines endCheck w = (r, w1) \<Longrightarrow> warnings w1 = warnings w"
  using loop_warnings [of endCheck "[]" w] by (simp add: readLines_def)

lemma writeLine_warnings: "writeLine v s w = (err, w1) \<Longrightarrow> warnings w1 = warnings w"
  by (auto simp: writeLine_def nextWrite_def Let_def warnings_def logPrintf_def
      split: list.splits write_result.splits)

lemma sint_sum_list:
  "sint (sum_list xs :: go_int) = signed_take_bit 63 (sum_list (map sint xs))"
proof (induction xs)
  case Nil
  show ?case by simp
next
  case (Cons x xs)
  have "sint (x + sum_list xs) = signed_take_bit 63 (sint x + sint (sum_list xs))"
    by (simp add: sint_word_ariths)
  also have "\<dots> = signed_take_bit 63 (signed_take_bit 63 (sint x) + signed_take_bit 63 (sint (sum_list xs)))"
    by (simp only: signed_take_bit_add)
  also have "\<dots> = signed_take_bit 63 (signed_take_bit 63 (sint x) + signed_take_bit 63 (sum_list (map sint xs)))"
    by (simp add: Cons.IH)
  also have "\<dots> = signed_take_bit 63 (sint x + sum_list (map sint xs))"
    by (simp only: signed_take_bit_add)
  finally show ?case by simp
qed

lemma sint_sum_list_exact:
  assumes "- (2 ^ 63) \<le> sum_list (map sint xs)" and "sum_list (map sint xs) < 2 ^ 63"
  shows "sint (sum_list xs :: go_int) = sum_list (map sint xs)"
  using assms by (simp add: sint_sum_list signed_take_bit_int_eq_self)

subsection \<open>Evaluation rules\<close>

lemma spaceWidth_Nil: "spaceWidth [] = 0"
  by (simp add: spaceWidth_def)

lemma spaceWidth_Cons:
  "spaceWidth (c # cs) =
     (if asciiSpace c then 1
      else (case filter (HasPrefix (c # cs)) spaceRunes of [] \<Rightarrow> 0 | r # _ \<Rightarrow> length r))"
  by (simp add: spaceWidth_def)

lemma spaceWidthEnd_Nil: "spaceWidthEnd [] = 0"
  by (simp add: spaceWidthEnd_def)

lemma spaceWidthEnd_Cons:
  "spaceWidthEnd (c # cs) =
     (if asciiSpace (last (c # cs)) then 1
      else (case filter (HasSuffix (c # cs)) spaceRunes of [] \<Rightarrow> 0 | r # _ \<Rightarrow> length r))"
  by (simp add: spaceWidthEnd_def)

lemma TrimLeft_stop: "spaceWidth s = 0 \<Longrightarrow> TrimLeft s = s"
  by (subst TrimLeft.simps) simp

lemma TrimLeft_step: "spaceWidth s \<noteq> 0 \<Longrightarrow> TrimLeft s = TrimLeft (drop (spaceWidth s) s)"
  by (subst TrimLeft.simps) simp

lemma TrimRight_stop: "spaceWidthEnd s = 0 \<Longrightarrow> TrimRight s = s"
  by (subst TrimRight.simps) simp

lemma TrimRight_step:
  "spaceWidthEnd s \<noteq> 0 \<Longrightarrow> TrimRight s = TrimRight (take (length s - spaceWidthEnd s) s)"
  by (subst TrimRight.simps) simp

lemma SkipSpace_Nil: "SkipSpace [] = Inr []"
  by (subst SkipSpace.simps) simp

lemma SkipSpace_newline: "SkipSpace (CHR 0x0A # cs) = Inl UnexpectedNewline"
  by (subst SkipSpace.simps) simp

lemma SkipSpace_stop:
  "c \<noteq> CHR 0x0A \<Longrightarrow> spaceWidth (c # cs) = 0 \<Longrightarrow> SkipSpace (c # cs) = Inr (c # cs)"
  by (subst SkipSpace.simps) simp

lemma SkipSpace_step:
  "c \<noteq> CHR 0x0A \<Longrightarrow> spaceWidth (c # cs) \<noteq> 0 \<Longrightarrow>
   SkipSpace (c # cs) = SkipSpace (drop (spaceWidth (c # cs)) (c # cs))"
  by (subst SkipSpace.simps) simp

lemma skipBlanks_Nil: "skipBlanks [] = []"
  by (subst skipBlanks.simps) simp

lemma skipBlanks_stop:
  "c = CHR 0x0A \<or> spaceWidth (c # cs) = 0 \<Longrightarrow> skipBlanks (c # cs) = c # cs"
  by (subst skipBlanks.simps) auto

lemma skipBlanks_step:
  "c \<noteq> CHR 0x0A \<Longrightarrow> spaceWidth (c # cs) \<noteq> 0 \<Longrightarrow>
   skipBlanks (c # cs) = skipBlanks (drop (spaceWidth (c # cs)) (c # cs))"
  by (subst skipBlanks.simps) simp




lemmas string_eval = asciiSpace_def spaceRunes_def HasPrefix_def HasSuffix_def spaceWidth_Nil
  spaceWidth_Cons spaceWidthEnd_Nil spaceWidthEnd_Cons TrimLeft_stop TrimLeft_step TrimRight_stop TrimRight_step TrimSpace_def
lemmas scan_eval = SkipSpace_Nil SkipSpace_newline SkipSpace_stop SkipSpace_step
  skipBlanks_Nil skipBlanks_stop skipBlanks_step advanceSpace_def isDigit_def digitVal_def
  decimalDigit_def isSign_def maxVal_def cutoffUint_def ParseUint_def cutoffInt_def ParseInt_def
  scanInt_def Sscanf_def
lemmas io_eval = logPrintf_def loop_Nil loop_line loop_err readLines_def nextWrite_def
  writeLine_def
lemmas check_eval = endOK_def endDot_def checkList_def checkPass_def checkUser_def
  checkGreeting_def checkMailbox_def freshWorld_def serverSends_def
lemmas entry_eval = isEntryLine_def scans_def entryOf_def entries_def

subsection \<open>Every sequence of reads splits at the read that ends the collection\<close>

lemma incoming_splits:
  "\<exists>ls rest. rs = map (\<lambda>x. (x, None)) ls @ rest \<and>
     (\<forall>x\<in>set ls. \<not> endCheck (TrimSpace x)) \<and>
     (case rest of (l, None) # _ \<Rightarrow> endCheck (TrimSpace l) | _ \<Rightarrow> True)"
proof (induction rs)
  case Nil
  show ?case by (rule exI [of _ "[]"]) simp
next
  case (Cons r rs)
  obtain l e where r: "r = (l, e)" by (cases r)
  from Cons obtain ls rest where IH: "rs = map (\<lambda>x. (x, None)) ls @ rest"
    "\<forall>x\<in>set ls. \<not> endCheck (TrimSpace x)"
    "case rest of (l, None) # _ \<Rightarrow> endCheck (TrimSpace l) | _ \<Rightarrow> True"
    by blast
  show ?case
  proof (cases "e = None \<and> \<not> endCheck (TrimSpace l)")
    case True
    with IH r show ?thesis
      by (intro exI [of _ "l # ls"] exI [of _ rest]) simp
  next
    case False
    with r show ?thesis
      by (intro exI [of _ "[]"] exI [of _ "r # rs"]) (auto split: option.splits)
  qed
qed

subsection \<open>Scanning two integers\<close>

lemma spaceRunes_lead: "\<forall>r\<in>set spaceRunes. r \<noteq> [] \<and> (128::nat) \<le> of_char (hd r)"
  by (simp add: spaceRunes_def)

lemma HasPrefix_hd: "HasPrefix (c # cs) r \<Longrightarrow> r \<noteq> [] \<Longrightarrow> hd r = c"
  by (cases r) (auto simp: HasPrefix_def)

lemma spaceWidth_ascii:
  assumes "of_char c < (128::nat)" and "\<not> asciiSpace c"
  shows "spaceWidth (c # cs) = 0"
proof -
  have "\<not> HasPrefix (c # cs) r" if "r \<in> set spaceRunes" for r
    using spaceRunes_lead that HasPrefix_hd [of c cs r] assms(1) by fastforce
  then have "filter (HasPrefix (c # cs)) spaceRunes = []"
    by (simp add: filter_empty_conv)
  with assms(2) show ?thesis by (simp add: spaceWidth_Cons)
qed

lemma spaceWidth_blank: "asciiSpace c \<Longrightarrow> spaceWidth (c # cs) = 1"
  by (simp add: spaceWidth_Cons)

lemma isDigit_ascii: "isDigit c \<Longrightarrow> of_char c < (128::nat) \<and> \<not> asciiSpace c \<and> c \<noteq> CHR 0x0A"
  by (auto simp: isDigit_def asciiSpace_def)

lemma isSign_ascii: "isSign c \<Longrightarrow> of_char c < (128::nat) \<and> \<not> asciiSpace c \<and> c \<noteq> CHR 0x0A"
  by (auto simp: isSign_def asciiSpace_def)


lemma SkipSpace_nonspace:
  "of_char c < (128::nat) \<Longrightarrow> \<not> asciiSpace c \<Longrightarrow> SkipSpace (c # cs) = Inr (c # cs)"
  by (rule SkipSpace_stop) (auto simp: spaceWidth_ascii asciiSpace_def)

lemma skipBlanks_blanks:
  assumes "list_all isBlank sp"
    and "t = [] \<or> (of_char (hd t) < (128::nat) \<and> \<not> asciiSpace (hd t))"
  shows "skipBlanks (sp @ t) = t"
  using assms(1)
proof (induction sp)
  case Nil
  show ?case
  proof (cases t)
    case Nil
    then show ?thesis by (simp add: skipBlanks_Nil)
  next
    case (Cons c cs)
    with assms(2) have "spaceWidth (c # cs) = 0" by (simp add: spaceWidth_ascii)
    with Cons show ?thesis by (simp add: skipBlanks_stop)
  qed
next
  case (Cons c sp)
  then have c: "asciiSpace c" "c \<noteq> CHR 0x0A" by (simp_all add: isBlank_def)
  then have "skipBlanks (c # sp @ t) = skipBlanks (drop (spaceWidth (c # sp @ t)) (c # sp @ t))"
    by (intro skipBlanks_step) (simp_all add: spaceWidth_blank)
  with c Cons show ?case by (simp add: spaceWidth_blank)
qed

lemma advanceSpace_blanks:
  assumes "sp \<noteq> []" and "list_all isBlank sp"
    and "t = [] \<or> (of_char (hd t) < (128::nat) \<and> \<not> asciiSpace (hd t))"
  shows "advanceSpace (sp @ t) = Inr t"
proof -
  from assms(1) obtain c cs where sp: "sp = c # cs" by (cases sp) auto
  with assms(2) have c: "asciiSpace c" "c \<noteq> CHR 0x0A" by (simp_all add: isBlank_def)
  from skipBlanks_blanks [OF assms(2,3)] sp c show ?thesis
    by (simp add: advanceSpace_def spaceWidth_blank)
qed

lemma decimal_ge: "n \<le> foldl (\<lambda>n c. n * 10 + digitVal c) n ds"
proof (induction ds arbitrary: n)
  case Nil
  show ?case by simp
next
  case (Cons c cs)
  have "n \<le> n * 10 + digitVal c" by simp
  also have "\<dots> \<le> foldl (\<lambda>n c. n * 10 + digitVal c) (n * 10 + digitVal c) cs"
    by (rule Cons.IH)
  finally show ?case by simp
qed

lemma ParseUintLoop_digits:
  assumes "list_all isDigit ds" and "foldl (\<lambda>n c. n * 10 + digitVal c) n ds \<le> maxVal"
  shows "ParseUintLoop n ds = (foldl (\<lambda>n c. n * 10 + digitVal c) n ds, None)"
  using assms
proof (induction ds arbitrary: n)
  case Nil
  show ?case by simp
next
  case (Cons c cs)
  let ?n = "n * 10 + digitVal c"
  from Cons.prems(2) decimal_ge [of ?n cs] have le: "?n \<le> maxVal" by simp
  then have "n < cutoffUint" by (simp add: cutoffUint_def maxVal_def)
  with le Cons show ?case by simp
qed

lemma ParseInt_integer:
  assumes "isInteger t" and "fitsInt t"
  shows "ParseInt t = (intValue t, None)"
proof -
  define ds where "ds = (if t \<noteq> [] \<and> isSign (hd t) then tl t else t)"
  from assms(1) have ds: "ds \<noteq> []" "list_all isDigit ds"
    by (simp_all add: isInteger_def ds_def Let_def)
  then have t: "t \<noteq> []" by (auto simp: ds_def split: if_splits)
  have val: "\<bar>intValue t\<bar> = int (decimalValue ds)"
    using t by (auto simp: intValue_def ds_def isSign_def)
  with assms(2) have fit: "decimalValue ds \<le> 2 ^ 63"
    by (simp add: fitsInt_def) linarith
  then have "decimalValue ds \<le> maxVal" by (simp add: maxVal_def)
  with ds have pu: "ParseUint ds = (decimalValue ds, None)"
    by (simp add: ParseUint_def ParseUintLoop_digits decimalValue_def)
  show ?thesis
  proof (cases "hd t = CHR ''-''")
    case True
    with t have iv: "intValue t = - int (decimalValue ds)" and sg: "isSign (hd t)"
      and dst: "tl t = ds"
      by (simp_all add: intValue_def ds_def isSign_def)
    from t True sg pu fit show ?thesis
      by (simp add: ParseInt_def dst iv Let_def cutoffInt_def)
  next
    case False
    with t have iv: "intValue t = int (decimalValue ds)"
      by (auto simp: intValue_def ds_def isSign_def)
    with assms(2) have lt: "decimalValue ds < 2 ^ 63" by (simp add: fitsInt_def)
    show ?thesis
    proof (cases "isSign (hd t)")
      case True
      with t have dst: "tl t = ds" by (simp add: ds_def)
      from t False True pu lt show ?thesis
        by (simp add: ParseInt_def dst iv Let_def cutoffInt_def)
    next
      case nosign: False
      then have dst: "t = ds" by (simp add: ds_def)
      from t False nosign pu lt show ?thesis
        by (simp add: ParseInt_def dst [symmetric] iv Let_def cutoffInt_def)
    qed
  qed
qed


lemma isInteger_cases:
  assumes "isInteger t"
  obtains (signed) c ds where "t = c # ds" "isSign c" "ds \<noteq> []" "list_all isDigit ds"
    | (plain) c ds where "t = c # ds" "isDigit c" "\<not> isSign c" "list_all isDigit t"
proof (cases t)
  case Nil
  with assms show ?thesis by (simp add: isInteger_def)
next
  case (Cons c ds)
  show ?thesis
  proof (cases "isSign c")
    case True
    with assms Cons show ?thesis by (intro signed [of c ds]) (simp_all add: isInteger_def)
  next
    case False
    with assms Cons show ?thesis by (intro plain [of c ds]) (simp_all add: isInteger_def)
  qed
qed

lemma digit_run:
  assumes "ds \<noteq> []" and "list_all isDigit ds" and "r = [] \<or> \<not> decimalDigit (hd r)"
  shows "takeWhile decimalDigit (ds @ r) = ds \<and> dropWhile decimalDigit (ds @ r) = r"
proof -
  from assms(2) have all: "\<forall>c\<in>set ds. decimalDigit c"
    by (simp add: list_all_iff decimalDigit_def)
  show ?thesis
  proof (cases r)
    case Nil
    with all show ?thesis by simp
  next
    case (Cons c cs)
    with assms(3) have "\<not> decimalDigit c" by simp
    with all Cons show ?thesis
      by (simp add: takeWhile_append2 dropWhile_append2)
  qed
qed

lemma scanInt_integer:
  assumes "isInteger t" and "fitsInt t" and "r = [] \<or> \<not> decimalDigit (hd r)"
  shows "scanInt (t @ r) = Inr (word_of_int (intValue t), r)"
  using assms(1)
proof (cases rule: isInteger_cases)
  case (signed c ds)
  from digit_run [OF signed(3,4) assms(3)]
  have tw: "takeWhile decimalDigit (ds @ r) = ds" and dw: "dropWhile decimalDigit (ds @ r) = r"
    by simp_all
  from signed(2) have asc: "of_char c < (128::nat)" "\<not> asciiSpace c"
    using isSign_ascii by blast+
  have skip: "SkipSpace (c # ds @ r) = Inr (c # ds @ r)"
    by (rule SkipSpace_nonspace [OF asc])
  have pi: "ParseInt (c # ds) = (intValue t, None)"
    using ParseInt_integer [OF assms(1,2)] by (simp add: signed(1))
  have "scanInt (c # ds @ r) = Inr (word_of_int (intValue t), r)"
    using signed(2,3) by (simp add: scanInt_def skip tw dw pi Let_def)
  then show ?thesis by (simp add: signed(1))
next
  case (plain c ds)
  then have ne: "t \<noteq> []" by simp
  from digit_run [OF ne plain(4) assms(3)]
  have tw: "takeWhile decimalDigit (t @ r) = t" and dw: "dropWhile decimalDigit (t @ r) = r"
    by simp_all
  from plain(2) have asc: "of_char c < (128::nat)" "\<not> asciiSpace c"
    using isDigit_ascii by blast+
  have skip: "SkipSpace (t @ r) = Inr (t @ r)"
    using SkipSpace_nonspace [OF asc, of "ds @ r"] by (simp add: plain(1))
  have hd: "hd (t @ r) = c" by (simp add: plain(1))
  note pi = ParseInt_integer [OF assms(1,2)]
  from ne plain(3) show ?thesis
    by (simp add: scanInt_def skip hd tw dw pi Let_def)
qed

lemma Sscanf_two_integers:
  assumes "isInteger a" and "fitsInt a" and "isInteger b" and "fitsInt b"
    and "sp \<noteq> []" and "list_all isBlank sp"
    and "r = [] \<or> \<not> decimalDigit (hd r)"
  shows "Sscanf (a @ sp @ b @ r) = (2, None, word_of_int (intValue a), word_of_int (intValue b))"
proof -
  from assms(1) obtain ca as where a: "a = ca # as" and ca: "isSign ca \<or> isDigit ca"
    by (cases rule: isInteger_cases) blast+
  from assms(3) obtain cb bs where b: "b = cb # bs" and cb: "isSign cb \<or> isDigit cb"
    by (cases rule: isInteger_cases) blast+
  from ca have asca: "of_char ca < (128::nat)" "\<not> asciiSpace ca"
    using isDigit_ascii isSign_ascii by blast+
  from cb have ascb: "of_char cb < (128::nat)" "\<not> asciiSpace cb"
    using isDigit_ascii isSign_ascii by blast+
  from assms(5) obtain cp ps where sp: "sp = cp # ps" by (cases sp) auto
  with assms(6) have "asciiSpace cp" by (simp add: isBlank_def)
  then have "\<not> decimalDigit cp" by (auto simp: decimalDigit_def isDigit_def asciiSpace_def)
  with sp have nd: "sp @ b @ r = [] \<or> \<not> decimalDigit (hd (sp @ b @ r))" by simp
  have 1: "SkipSpace (a @ sp @ b @ r) = Inr (a @ sp @ b @ r)"
    using SkipSpace_nonspace [OF asca, of "as @ sp @ b @ r"] a by simp
  have 2: "scanInt (a @ sp @ b @ r) = Inr (word_of_int (intValue a), sp @ b @ r)"
    by (rule scanInt_integer [OF assms(1,2) nd])
  have 3: "advanceSpace (sp @ b @ r) = Inr (b @ r)"
    using advanceSpace_blanks [OF assms(5,6), of "b @ r"] ascb b by simp
  have 4: "SkipSpace (b @ r) = Inr (b @ r)"
    using SkipSpace_nonspace [OF ascb, of "bs @ r"] b by simp
  have 5: "scanInt (b @ r) = Inr (word_of_int (intValue b), r)"
    by (rule scanInt_integer [OF assms(3,4,7)])
  show ?thesis by (simp add: Sscanf_def 1 2 3 4 5)
qed


lemma checkList_rangeLines:
  assumes "writeLine v ''LIST'' w = (err, w1)"
    and "readLines endDot w1 = ((lines, None), w2)"
  shows "checkList v ws q w =
           (case rangeLines v ws lines 0 w2 of
              ((Some e, tot), w3) \<Rightarrow> (Some e, w3)
            | ((None, tot), w3) \<Rightarrow>
                (None,
                 let w4 = (if v then logPrintf (TotalSize tot) w3 else w3)
                 in if sint q < sint tot then logPrintf (WarningMailbox tot) w4 else w4))"
  using assms by (simp add: checkList_def Let_def split: prod.splits option.splits)

subsection \<open>The lines that scan\<close>























subsection \<open>Two sample runs\<close>

lemma run_small:
  "checkMailbox False ''h'' ''u'' ''p'' 1000 1000
     (serverSends [''+OK POP3 ready'', ''+OK'', ''+OK'', ''+OK 1 messages'', ''1 500'', ''.'']) =
   (None,
    freshWorld\<lparr>status := Open,
      outgoing := [(''USER u'' @ [CHR 0x0D, CHR 0x0A], WriteOk),
                   (''PASS p'' @ [CHR 0x0D, CHR 0x0A], WriteOk),
                   (''LIST'' @ [CHR 0x0D, CHR 0x0A], WriteOk)]\<rparr>)"
  by (simp add: string_eval scan_eval io_eval check_eval)

lemma run_small_verbose:
  "checkMailbox True ''h'' ''u'' ''p'' 1000 1000
     (serverSends [''+OK POP3 ready'', ''+OK'', ''+OK'', ''+OK 1 messages'', ''1 500'', ''.'']) =
   (None,
    freshWorld\<lparr>status := Open,
      outgoing := [(''USER u'' @ [CHR 0x0D, CHR 0x0A], WriteOk),
                   (''PASS p'' @ [CHR 0x0D, CHR 0x0A], WriteOk),
                   (''LIST'' @ [CHR 0x0D, CHR 0x0A], WriteOk)],
      logged := [Connecting ''h'', Connected ''h:110'' ''192.0.2.1:110'',
                 WritingLine ''USER u'', WritingLine ''PASS p'', WritingLine ''LIST'',
                 ReadLISTLine ''+OK 1 messages'', ReadLISTLine ''1 500'', ReadLISTLine ''.'',
                 TotalSize 500]\<rparr>)"
  by (simp add: string_eval scan_eval io_eval check_eval)

lemma sample_list_entries:
  "entries [''+OK 2 messages'', ''1 1024'', ''2 6000000'', ''.''] = [(1, 1024), (2, 6000000)]"
  by (simp add: entry_eval string_eval scan_eval)

lemma sample_list_scans:
  "\<forall>l\<in>set [''+OK 2 messages'', ''1 1024'', ''2 6000000'', ''.'']. isEntryLine l \<longrightarrow> scans l"
  by (simp add: entry_eval string_eval scan_eval)

section \<open>The claims\<close>

subsection \<open>C1: the connection when checkMailbox returns\<close>

text \<open>
  C1, counterexample. The claim has the connection closed before \<^verbatim>\<open>checkMailbox\<close>
  returns. On the run below the dial succeeds, the whole check succeeds, and the
  connection is not closed when \<^verbatim>\<open>checkMailbox\<close> returns.
\<close>

theorem connection_left_open:
  "dialErr (serverSends
      [''+OK POP3 ready'', ''+OK'', ''+OK'', ''+OK 1 messages'', ''1 500'', ''.'']) = None \<and>
   fst (checkMailbox False ''h'' ''u'' ''p'' 1000 1000
     (serverSends [''+OK POP3 ready'', ''+OK'', ''+OK'', ''+OK 1 messages'', ''1 500'', ''.''])) =
   None \<and>
   status (snd (checkMailbox False ''h'' ''u'' ''p'' 1000 1000
     (serverSends [''+OK POP3 ready'', ''+OK'', ''+OK'', ''+OK 1 messages'', ''1 500'', ''.'']))) \<noteq>
   Closed"
  by (simp add: run_small) (simp add: serverSends_def freshWorld_def)

text \<open>
  C1, as the code has it. After a successful dial, on the success path and on every
  failure path alike, \<^verbatim>\<open>checkMailbox\<close> returns with the connection still open: it has no
  call of \<^verbatim>\<open>Conn.Close\<close> (lines 151-154), and no other function of the program calls
  it either, so the world it ends in is not the one \<open>Close\<close> would leave. The
  connection goes when the process exits.
\<close>

theorem connection_never_closed:
  "dialErr w = None \<Longrightarrow>
   status (snd (checkMailbox v host user pass ws q w)) = Open \<and>
   snd (checkMailbox v host user pass ws q w) \<noteq> Close (snd (checkMailbox v host user pass ws q w))"
proof -
  assume d: "dialErr w = None"
  obtain r w' where cg: "checkGreeting v user pass ws q (afterDial v host w) = (r, w')"
    by (cases "checkGreeting v user pass ws q (afterDial v host w)")
  from checkGreeting_status [OF cg] have "status w' = Open"
    by (simp add: afterDial_fields)
  with cg have op: "status (snd (checkMailbox v host user pass ws q w)) = Open"
    by (simp add: checkMailbox_dialed [OF d])
  have "status (Close x) = Closed" for x by (simp add: Close_def)
  with op have "snd (checkMailbox v host user pass ws q w) \<noteq>
      Close (snd (checkMailbox v host user pass ws q w))"
    by (metis conn_status.distinct(5))
  with op show ?thesis by simp
qed

theorem connection_never_closed_witness:
  "status (snd (checkMailbox False ''h'' ''u'' ''p'' 1000 1000
     (serverSends [''+OK POP3 ready'', ''+OK'', ''+OK'', ''+OK 1 messages'', ''1 500'', ''.'']))) =
   Open"
proof -
  have "dialErr (serverSends
      [''+OK POP3 ready'', ''+OK'', ''+OK'', ''+OK 1 messages'', ''1 500'', ''.'']) = None"
    by (simp add: serverSends_def freshWorld_def)
  from connection_never_closed [OF this] show ?thesis by simp
qed

subsection \<open>C2: a failed write of LIST\<close>

text \<open>
  C2. The USER and PASS writes are checked (lines 272-276 and 291-295), the LIST write
  is not: line 310 stores the result of \<^verbatim>\<open>writeLine("LIST")\<close> in \<^verbatim>\<open>err\<close> and line 311
  assigns \<^verbatim>\<open>err\<close> again. On the run below the greeting, USER and PASS go through and
  the flush of LIST fails with "broken pipe". The check does not return that error: it
  goes on to read (the log has the read failure of \<^verbatim>\<open>readLine\<close> after the flush
  error), collects no line and returns \<^verbatim>\<open>nil\<close>.
\<close>

theorem list_write_error_ignored:
  "checkMailbox False ''h'' ''u'' ''p'' 5242880 10485760
     ((serverSends [''+OK POP3 ready'', ''+OK'', ''+OK''])
        \<lparr>wresults := [WriteOk, WriteOk, FlushFails (Transport ''broken pipe'')]\<rparr>) =
   (None,
    freshWorld\<lparr>status := Open,
      outgoing := [(''USER u'' @ [CHR 0x0D, CHR 0x0A], WriteOk),
                   (''PASS p'' @ [CHR 0x0D, CHR 0x0A], WriteOk),
                   (''LIST'' @ [CHR 0x0D, CHR 0x0A], FlushFails (Transport ''broken pipe''))],
      logged := [FlushError (Transport ''broken pipe''), ReadFailure IoEOF]\<rparr>)"
  by (simp add: string_eval scan_eval io_eval check_eval)

subsection \<open>C3: what readLines returns\<close>

text \<open>
  C3. For every predicate \<open>endCheck\<close> and every sequence of read results, split the
  sequence at the first read that ends the collection: \<open>ls\<close> are the lines read before
  it, none of which satisfies the predicate once trimmed, and \<open>rest\<close> begins with the
  read that ends it (every sequence splits so, lemma \<open>incoming_splits\<close>). Then \<^verbatim>\<open>readLines\<close> returns the trimmed lines in the order
  received and
  \<^item> when \<open>rest\<close> begins with a line (which then satisfies the predicate), it returns at
    once with that line as the last element and no error;
  \<^item> when \<open>rest\<close> begins with a timeout or \<^verbatim>\<open>io.EOF\<close>, or the peer has closed (\<open>rest\<close> is
    empty), it returns the lines collected so far and no error;
  \<^item> when \<open>rest\<close> begins with any other read error, it returns that error and no line.
  In every case the reads after the one that ended the collection are left unread.
\<close>

theorem readLines_collects:
  assumes "incoming w = map (\<lambda>x. (x, None)) ls @ rest"
    and "\<forall>x\<in>set ls. \<not> endCheck (TrimSpace x)"
    and "case rest of (l, None) # _ \<Rightarrow> endCheck (TrimSpace l) | _ \<Rightarrow> True"
  shows "fst (readLines endCheck w) =
           (case rest of
              [] \<Rightarrow> (map TrimSpace ls, None)
            | (l, None) # _ \<Rightarrow> (map TrimSpace ls @ [TrimSpace l], None)
            | (l, Some e) # _ \<Rightarrow>
                if e = NetTimeout \<or> e = IoEOF then (map TrimSpace ls, None)
                else ([], Some e)) \<and>
         incoming (snd (readLines endCheck w)) = drop 1 rest"
proof -
  have run: "fst (readLinesLoop endCheck acc w') =
           (case rest of
              [] \<Rightarrow> (acc @ map TrimSpace xs, None)
            | (l, None) # _ \<Rightarrow> (acc @ map TrimSpace xs @ [TrimSpace l], None)
            | (l, Some e) # _ \<Rightarrow>
                if e = NetTimeout \<or> e = IoEOF then (acc @ map TrimSpace xs, None)
                else ([], Some e)) \<and>
         incoming (snd (readLinesLoop endCheck acc w')) = drop 1 rest"
    if "incoming w' = map (\<lambda>x. (x, None)) xs @ rest"
      and "\<forall>x\<in>set xs. \<not> endCheck (TrimSpace x)" for xs acc w'
    using that
  proof (induction xs arbitrary: w' acc)
    case Nil
    show ?case
    proof (cases rest)
      case Nil
      with Nil.prems show ?thesis by (simp add: loop_Nil)
    next
      case (Cons r rest')
      obtain l e where r: "r = (l, e)" by (cases r)
      show ?thesis
      proof (cases e)
        case None
        with Nil.prems Cons r assms(3) show ?thesis by (simp add: loop_line)
      next
        case (Some err)
        with Nil.prems Cons r show ?thesis by (simp add: loop_err)
      qed
    qed
  next
    case (Cons x xs)
    let ?w = "w'\<lparr>incoming := map (\<lambda>x. (x, None)) xs @ rest\<rparr>"
    have step: "readLinesLoop endCheck acc w' = readLinesLoop endCheck (acc @ [TrimSpace x]) ?w"
      using Cons.prems by (simp add: loop_line)
    have "incoming ?w = map (\<lambda>x. (x, None)) xs @ rest" by simp
    from Cons.IH [OF this, of "acc @ [TrimSpace x]"] Cons.prems(2) step
    show ?case by (simp split: list.splits option.splits prod.splits)
  qed
  from run [OF assms(1,2), of "[]"] show ?thesis
    by (simp add: readLines_def split: list.splits option.splits prod.splits)
qed

theorem readLines_collects_witness:
  "fst (readLines endOK
         (freshWorld\<lparr>incoming := [(''hello'', None), (''+OK ready'', None), (''more'', None)]\<rparr>)) =
     ([''hello'', ''+OK ready''], None) \<and>
   fst (readLines endDot
         (freshWorld\<lparr>incoming := [(''1 500'', None), ([], Some NetTimeout)]\<rparr>)) =
     ([''1 500''], None) \<and>
   fst (readLines endDot
         (freshWorld\<lparr>incoming := [(''1 500'', None), ([], Some (Transport ''reset''))]\<rparr>)) =
     ([], Some (Transport ''reset''))"
  using
    readLines_collects [of "freshWorld\<lparr>incoming := [(''hello'', None), (''+OK ready'', None), (''more'', None)]\<rparr>"
      "[''hello'']" "[(''+OK ready'', None), (''more'', None)]" endOK]
    readLines_collects [of "freshWorld\<lparr>incoming := [(''1 500'', None), ([], Some NetTimeout)]\<rparr>"
      "[''1 500'']" "[([], Some NetTimeout)]" endDot]
    readLines_collects [of "freshWorld\<lparr>incoming := [(''1 500'', None), ([], Some (Transport ''reset''))]\<rparr>"
      "[''1 500'']" "[([], Some (Transport ''reset''))]" endDot]
  by (simp add: string_eval endOK_def endDot_def)

subsection \<open>C4: parsing the LIST lines\<close>




subsection \<open>C5: the warnings and the total\<close>

text \<open>
  C5, counterexample. The claim has the total equal to the sum of the parsed sizes.
  Go's \<^verbatim>\<open>int\<close> wraps around: with two entries of sizes 9223372036854775807 and 1 the
  sizes add up to 9223372036854775808, the total the loop computes is
  -9223372036854775808, and the whole check, with the quota 10485760, logs the warning
  for the first message and no warning for the mailbox.
\<close>

theorem total_wraps_around:
  "entries [''+OK 2 messages'', ''1 9223372036854775807'', ''2 1'', ''.''] =
     [(1, 9223372036854775807), (2, 1)] \<and>
   sint (9223372036854775807 :: go_int) + sint (1 :: go_int) = 9223372036854775808 \<and>
   sint (snd (fst (rangeLines False 5242880
     [''+OK 2 messages'', ''1 9223372036854775807'', ''2 1'', ''.''] 0 freshWorld))) =
     - 9223372036854775808 \<and>
   checkMailbox False ''h'' ''u'' ''p'' 5242880 10485760
     (serverSends [''+OK POP3 ready'', ''+OK'', ''+OK'',
        ''+OK 2 messages'', ''1 9223372036854775807'', ''2 1'', ''.'']) =
   (None,
    freshWorld\<lparr>status := Open,
      outgoing := [(''USER u'' @ [CHR 0x0D, CHR 0x0A], WriteOk),
                   (''PASS p'' @ [CHR 0x0D, CHR 0x0A], WriteOk),
                   (''LIST'' @ [CHR 0x0D, CHR 0x0A], WriteOk)],
      logged := [WarningMessage 1 9223372036854775807]\<rparr>)"
proof -
  have 1: "entries [''+OK 2 messages'', ''1 9223372036854775807'', ''2 1'', ''.''] =
     [(1, 9223372036854775807), (2, 1)]"
    by (simp add: entry_eval string_eval scan_eval)
  have 2: "sint (9223372036854775807 :: go_int) + sint (1 :: go_int) = 9223372036854775808"
    by simp
  have 3: "sint (snd (fst (rangeLines False 5242880
     [''+OK 2 messages'', ''1 9223372036854775807'', ''2 1'', ''.''] 0 freshWorld))) =
     - 9223372036854775808"
    by (simp add: string_eval scan_eval logPrintf_def)
  have 4: "checkMailbox False ''h'' ''u'' ''p'' 5242880 10485760
     (serverSends [''+OK POP3 ready'', ''+OK'', ''+OK'',
        ''+OK 2 messages'', ''1 9223372036854775807'', ''2 1'', ''.'']) =
   (None,
    freshWorld\<lparr>status := Open,
      outgoing := [(''USER u'' @ [CHR 0x0D, CHR 0x0A], WriteOk),
                   (''PASS p'' @ [CHR 0x0D, CHR 0x0A], WriteOk),
                   (''LIST'' @ [CHR 0x0D, CHR 0x0A], WriteOk)],
      logged := [WarningMessage 1 9223372036854775807]\<rparr>)"
    by (simp add: string_eval scan_eval io_eval check_eval)
  from 1 2 3 4 show ?thesis by blast
qed

text \<open>
  C5, as the code has it. Let \<open>lines\<close> be the collected LIST lines, every entry line of
  which scans, and \<open>entries lines\<close> the \<^verbatim>\<open>(id, size)\<close> pairs of its entry lines, one for
  each line that does not begin with \<^verbatim>\<open>+OK\<close> and is not \<^verbatim>\<open>.\<close>, in order. Then
  \<^item> the loop ends without error, and its total is the sum of the sizes of the entries
    in Go's 64-bit \<^verbatim>\<open>int\<close>: the exact sum wrapped into the two's complement range, hence
    the exact sum whenever that lies in the range;
  \<^item> the LIST step logs one per-message warning for each entry whose size is greater
    than the warn size (as signed numbers), in order, and no other;
  \<^item> after them it logs the mailbox warning if and only if the total is greater than
    the quota.
\<close>

theorem list_totals:
  assumes "writeLine v ''LIST'' w = (err, w1)"
    and "readLines endDot w1 = ((lines, None), w2)"
    and "\<forall>l\<in>set lines. isEntryLine l \<longrightarrow> scans l"
  shows "fst (rangeLines v ws lines 0 w2) = (None, sum_list (map snd (entries lines))) \<and>
         sint (sum_list (map snd (entries lines))) =
           signed_take_bit 63 (sum_list (map (sint \<circ> snd) (entries lines))) \<and>
         (- (2 ^ 63) \<le> sum_list (map (sint \<circ> snd) (entries lines)) \<and>
          sum_list (map (sint \<circ> snd) (entries lines)) < 2 ^ 63 \<longrightarrow>
            sint (sum_list (map snd (entries lines))) =
              sum_list (map (sint \<circ> snd) (entries lines))) \<and>
         fst (checkList v ws q w) = None \<and>
         warnings (snd (checkList v ws q w)) =
           warnings w @
           map (\<lambda>(i, s). WarningMessage i s)
             (filter (\<lambda>(i, s). sint ws < sint s) (entries lines)) @
           (if sint q < sint (sum_list (map snd (entries lines)))
            then [WarningMailbox (sum_list (map snd (entries lines)))] else [])"
proof -
  let ?tot = "sum_list (map snd (entries lines))"
  obtain w3 where rg: "rangeLines v ws lines 0 w2 = ((None, ?tot), w3)"
    using rangeLines_all [OF assms(3), of v ws 0 w2]
    by (cases "rangeLines v ws lines 0 w2") auto
  from rangeLines_all [OF assms(3), of v ws 0 w2] rg
  have w3: "warnings w3 = warnings w2 @
           map (\<lambda>(i, s). WarningMessage i s)
             (filter (\<lambda>(i, s). sint ws < sint s) (entries lines))"
    by simp
  from writeLine_warnings [OF assms(1)] readLines_warnings [OF assms(2)]
  have w2: "warnings w2 = warnings w" by simp
  have 1: "fst (rangeLines v ws lines 0 w2) = (None, ?tot)" by (simp add: rg)
  have 2: "sint ?tot = signed_take_bit 63 (sum_list (map (sint \<circ> snd) (entries lines)))"
    using sint_sum_list [of "map snd (entries lines)"] by (simp add: comp_def)
  have 3: "sint ?tot = sum_list (map (sint \<circ> snd) (entries lines))"
    if "- (2 ^ 63) \<le> sum_list (map (sint \<circ> snd) (entries lines)) \<and>
          sum_list (map (sint \<circ> snd) (entries lines)) < 2 ^ 63"
    using sint_sum_list_exact [of "map snd (entries lines)"] that by (simp add: comp_def)
  have cl: "checkList v ws q w =
      (None,
       let w4 = (if v then logPrintf (TotalSize ?tot) w3 else w3)
       in if sint q < sint ?tot then logPrintf (WarningMailbox ?tot) w4 else w4)"
    by (simp add: checkList_rangeLines [OF assms(1,2)] rg)
  have 4: "fst (checkList v ws q w) = None" by (simp add: cl)
  have 5: "warnings (snd (checkList v ws q w)) =
           warnings w @
           map (\<lambda>(i, s). WarningMessage i s)
             (filter (\<lambda>(i, s). sint ws < sint s) (entries lines)) @
           (if sint q < sint ?tot then [WarningMailbox ?tot] else [])"
    by (simp add: cl Let_def warnings_logPrintf w3 w2)
  from 1 2 3 4 5 show ?thesis by blast
qed

theorem list_totals_witness:
  "fst (rangeLines False 5000000 [''+OK 2 messages'', ''1 1024'', ''2 6000000'', ''.''] 0
         (freshWorld\<lparr>outgoing := [(''LIST'' @ [CHR 0x0D, CHR 0x0A], WriteOk)]\<rparr>)) =
     (None, 6001024) \<and>
   warnings (snd (checkList False 5000000 6000000
     (freshWorld\<lparr>incoming := map (\<lambda>l. (l, None))
        [''+OK 2 messages'', ''1 1024'', ''2 6000000'', ''.'']\<rparr>))) =
     [WarningMessage 2 6000000, WarningMailbox 6001024] \<and>
   warnings (snd (checkList False 5000000 7000000
     (freshWorld\<lparr>incoming := map (\<lambda>l. (l, None))
        [''+OK 2 messages'', ''1 1024'', ''2 6000000'', ''.'']\<rparr>))) =
     [WarningMessage 2 6000000]"
proof -
  let ?L = "[''+OK 2 messages'', ''1 1024'', ''2 6000000'', ''.'']"
  let ?w = "freshWorld\<lparr>incoming := map (\<lambda>l. (l, None)) ?L\<rparr>"
  let ?w1 = "freshWorld\<lparr>incoming := map (\<lambda>l. (l, None)) ?L,
                outgoing := [(''LIST'' @ [CHR 0x0D, CHR 0x0A], WriteOk)]\<rparr>"
  let ?w2 = "freshWorld\<lparr>outgoing := [(''LIST'' @ [CHR 0x0D, CHR 0x0A], WriteOk)]\<rparr>"
  have h1: "writeLine False ''LIST'' ?w = (None, ?w1)"
    by (simp add: io_eval freshWorld_def)
  have h2: "readLines endDot ?w1 = ((?L, None), ?w2)"
    by (simp add: string_eval io_eval endDot_def freshWorld_def)
  from list_totals [OF h1 h2 sample_list_scans, of 5000000 6000000]
    list_totals [OF h1 h2 sample_list_scans, of 5000000 7000000]
  show ?thesis
    by (simp add: sample_list_entries warnings_def freshWorld_def del: rangeLines.simps)
qed

subsection \<open>C6: the greeting\<close>

text \<open>
  C6. After a successful dial \<^verbatim>\<open>checkMailbox\<close> reads lines until one begins with
  \<^verbatim>\<open>+OK\<close>. Let \<open>(lines, err)\<close> be what that read returns. A command is handed to the
  writer if and only if the read returned no error and exactly one line, and that line
  begins with \<^verbatim>\<open>"+OK "\<close>; the check then goes on with the USER exchange. When the
  read returned no error and zero or several lines, the check fails with "Unexpected
  line count"; when it returned one line that does not begin with \<^verbatim>\<open>"+OK "\<close>, with
  "Invalid greeting"; in both cases nothing has been handed to the writer. (A hard read
  error, the third case of C3, is returned as it is, also before any command.)
\<close>

theorem greeting_gate:
  assumes "dialErr w = None"
    and "readLines endOK (afterDial v host w) = ((lines, err), w1)"
  shows "(length (outgoing w) < length (outgoing (snd (checkMailbox v host user pass ws q w))) \<longleftrightarrow>
            err = None \<and> length lines = 1 \<and> HasPrefix (lines ! 0) ''+OK '') \<and>
         (err = None \<and> length lines = 1 \<and> HasPrefix (lines ! 0) ''+OK '' \<longrightarrow>
            checkMailbox v host user pass ws q w = checkUser v user pass ws q w1) \<and>
         (err = None \<and> length lines \<noteq> 1 \<longrightarrow>
            checkMailbox v host user pass ws q w =
              (Some (ErrorsNew ''Unexpected line count''),
               logPrintf (UnexpectedNumberOfLines (length lines)) w1)) \<and>
         (err = None \<and> length lines = 1 \<and> \<not> HasPrefix (lines ! 0) ''+OK '' \<longrightarrow>
            checkMailbox v host user pass ws q w =
              (Some (ErrorsNew ''Invalid greeting''), logPrintf (GreetingNotOK (lines ! 0)) w1)) \<and>
         (\<forall>e. err = Some e \<longrightarrow>
            checkMailbox v host user pass ws q w = (Some e, logPrintf (ErrorReadingLines e) w1)) \<and>
         outgoing w1 = outgoing w \<and> wresults w1 = wresults w"
proof -
  note cm = checkMailbox_dialed [OF assms(1), of v host user pass ws q]
  from readLines_frame [OF assms(2)]
  have fr: "outgoing w1 = outgoing w" "wresults w1 = wresults w"
    by (simp_all add: afterDial_fields)
  have ok: "checkMailbox v host user pass ws q w = checkUser v user pass ws q w1"
    if "err = None \<and> length lines = 1 \<and> HasPrefix (lines ! 0) ''+OK ''"
    using that assms(2) by (simp add: cm checkGreeting_def)
  have cnt: "checkMailbox v host user pass ws q w =
              (Some (ErrorsNew ''Unexpected line count''),
               logPrintf (UnexpectedNumberOfLines (length lines)) w1)"
    if "err = None \<and> length lines \<noteq> 1"
    using that assms(2) by (simp add: cm checkGreeting_def)
  have bad: "checkMailbox v host user pass ws q w =
              (Some (ErrorsNew ''Invalid greeting''), logPrintf (GreetingNotOK (lines ! 0)) w1)"
    if "err = None \<and> length lines = 1 \<and> \<not> HasPrefix (lines ! 0) ''+OK ''"
    using that assms(2) by (simp add: cm checkGreeting_def)
  have hard: "checkMailbox v host user pass ws q w = (Some e, logPrintf (ErrorReadingLines e) w1)"
    if "err = Some e" for e
    using that assms(2) by (simp add: cm checkGreeting_def)
  have iff: "length (outgoing w) < length (outgoing (snd (checkMailbox v host user pass ws q w))) \<longleftrightarrow>
            err = None \<and> length lines = 1 \<and> HasPrefix (lines ! 0) ''+OK ''"
  proof (cases "err = None \<and> length lines = 1 \<and> HasPrefix (lines ! 0) ''+OK ''")
    case True
    obtain r w' where cu: "checkUser v user pass ws q w1 = (r, w')"
      by (cases "checkUser v user pass ws q w1")
    from checkUser_frame [OF cu] fr ok [OF True] cu True show ?thesis by simp
  next
    case False
    then show ?thesis
      using cnt bad hard fr by (cases err; cases "length lines = 1") auto
  qed
  from iff ok cnt bad hard fr show ?thesis by blast
qed

theorem greeting_gate_witness:
  "checkMailbox False ''h'' ''u'' ''p'' 5242880 10485760 (serverSends [''-ERR busy'']) =
     (Some (ErrorsNew ''Invalid greeting''),
      freshWorld\<lparr>status := Open, logged := [ReadFailure IoEOF, GreetingNotOK ''-ERR busy'']\<rparr>)"
proof -
  have d: "dialErr (serverSends [''-ERR busy'']) = None"
    by (simp add: serverSends_def freshWorld_def)
  have r: "readLines endOK (afterDial False ''h'' (serverSends [''-ERR busy''])) =
             (([''-ERR busy''], None), freshWorld\<lparr>status := Open, logged := [ReadFailure IoEOF]\<rparr>)"
    by (simp add: afterDial_def string_eval io_eval endOK_def serverSends_def freshWorld_def)
  from greeting_gate [OF d r, of "''u''" "''p''" 5242880 10485760] show ?thesis
    by (simp add: HasPrefix_def logPrintf_def)
qed

subsection \<open>C7: the USER and PASS exchanges\<close>

text \<open>
  C7. In the USER exchange, once the command is written and the answer collected
  without a read error, the check goes on to the PASS exchange if and only if exactly
  one line was collected and it begins with \<^verbatim>\<open>+OK\<close>; with zero lines, two or more, or
  a line that does not begin with \<^verbatim>\<open>+OK\<close> it fails there with the error "Unexpected
  user respose" and writes nothing more. The same holds for the PASS exchange, which
  goes on to LIST or fails with "Unexpected PASS respose".
\<close>

theorem auth_gate:
  "(writeLine v (''USER '' @ user) w = (None, w1) \<and> readLines endOK w1 = ((lines, None), w2) \<longrightarrow>
      (if length lines = 1 \<and> HasPrefix (lines ! 0) ''+OK''
       then checkUser v user pass ws q w = checkPass v pass ws q w2
       else checkUser v user pass ws q w =
              (Some (ErrorsNew ''Unexpected user respose''), logPrintf UnexpectedUSER w2)) \<and>
      (Suc (length (outgoing w)) < length (outgoing (snd (checkUser v user pass ws q w))) \<longleftrightarrow>
         length lines = 1 \<and> HasPrefix (lines ! 0) ''+OK'')) \<and>
   (writeLine v (''PASS '' @ pass) w = (None, w1) \<and> readLines endOK w1 = ((lines, None), w2) \<longrightarrow>
      (if length lines = 1 \<and> HasPrefix (lines ! 0) ''+OK''
       then checkPass v pass ws q w = checkList v ws q w2
       else checkPass v pass ws q w =
              (Some (ErrorsNew ''Unexpected PASS respose''), logPrintf UnexpectedPASS w2)) \<and>
      (Suc (length (outgoing w)) < length (outgoing (snd (checkPass v pass ws q w))) \<longleftrightarrow>
         length lines = 1 \<and> HasPrefix (lines ! 0) ''+OK''))"
proof -
  have user: "(if length lines = 1 \<and> HasPrefix (lines ! 0) ''+OK''
       then checkUser v user pass ws q w = checkPass v pass ws q w2
       else checkUser v user pass ws q w =
              (Some (ErrorsNew ''Unexpected user respose''), logPrintf UnexpectedUSER w2)) \<and>
      (Suc (length (outgoing w)) < length (outgoing (snd (checkUser v user pass ws q w))) \<longleftrightarrow>
         length lines = 1 \<and> HasPrefix (lines ! 0) ''+OK'')"
    if wl: "writeLine v (''USER '' @ user) w = (None, w1)"
      and rl: "readLines endOK w1 = ((lines, None), w2)"
  proof -
    from writeLine_frame [OF wl] readLines_frame [OF rl]
    have len: "length (outgoing w2) = Suc (length (outgoing w))" by simp
    define c where "c \<longleftrightarrow> length lines = 1 \<and> HasPrefix (lines ! 0) ''+OK''"
    have "(if c then checkUser v user pass ws q w = checkPass v pass ws q w2
           else checkUser v user pass ws q w =
              (Some (ErrorsNew ''Unexpected user respose''), logPrintf UnexpectedUSER w2)) \<and>
          (Suc (length (outgoing w)) < length (outgoing (snd (checkUser v user pass ws q w))) \<longleftrightarrow> c)"
    proof (cases c)
      case True
      then have eq: "checkUser v user pass ws q w = checkPass v pass ws q w2"
        using wl rl by (simp add: checkUser_def c_def)
      obtain r w' where cp: "checkPass v pass ws q w2 = (r, w')"
        by (cases "checkPass v pass ws q w2")
      from checkPass_frame [OF cp] len eq cp True show ?thesis by simp
    next
      case False
      then have "checkUser v user pass ws q w =
              (Some (ErrorsNew ''Unexpected user respose''), logPrintf UnexpectedUSER w2)"
        using wl rl by (auto simp: checkUser_def c_def)
      with False len show ?thesis by simp
    qed
    then show ?thesis unfolding c_def .
  qed
  have pass: "(if length lines = 1 \<and> HasPrefix (lines ! 0) ''+OK''
       then checkPass v pass ws q w = checkList v ws q w2
       else checkPass v pass ws q w =
              (Some (ErrorsNew ''Unexpected PASS respose''), logPrintf UnexpectedPASS w2)) \<and>
      (Suc (length (outgoing w)) < length (outgoing (snd (checkPass v pass ws q w))) \<longleftrightarrow>
         length lines = 1 \<and> HasPrefix (lines ! 0) ''+OK'')"
    if wl: "writeLine v (''PASS '' @ pass) w = (None, w1)"
      and rl: "readLines endOK w1 = ((lines, None), w2)"
  proof -
    from writeLine_frame [OF wl] readLines_frame [OF rl]
    have len: "length (outgoing w2) = Suc (length (outgoing w))" by simp
    define c where "c \<longleftrightarrow> length lines = 1 \<and> HasPrefix (lines ! 0) ''+OK''"
    have "(if c then checkPass v pass ws q w = checkList v ws q w2
           else checkPass v pass ws q w =
              (Some (ErrorsNew ''Unexpected PASS respose''), logPrintf UnexpectedPASS w2)) \<and>
          (Suc (length (outgoing w)) < length (outgoing (snd (checkPass v pass ws q w))) \<longleftrightarrow> c)"
    proof (cases c)
      case True
      then have eq: "checkPass v pass ws q w = checkList v ws q w2"
        using wl rl by (simp add: checkPass_def c_def)
      obtain r w' where cp: "checkList v ws q w2 = (r, w')"
        by (cases "checkList v ws q w2")
      from checkList_frame [OF cp] len eq cp True show ?thesis by simp
    next
      case False
      then have "checkPass v pass ws q w =
              (Some (ErrorsNew ''Unexpected PASS respose''), logPrintf UnexpectedPASS w2)"
        using wl rl by (auto simp: checkPass_def c_def)
      with False len show ?thesis by simp
    qed
    then show ?thesis unfolding c_def .
  qed
  from user pass show ?thesis by blast
qed

theorem auth_gate_witness:
  "checkUser False ''u'' ''p'' 5242880 10485760 (freshWorld\<lparr>incoming := [(''-ERR no'', None)]\<rparr>) =
     (Some (ErrorsNew ''Unexpected user respose''),
      freshWorld\<lparr>outgoing := [(''USER u'' @ [CHR 0x0D, CHR 0x0A], WriteOk)],
                 logged := [ReadFailure IoEOF, UnexpectedUSER]\<rparr>) \<and>
   checkPass False ''p'' 5242880 10485760 (freshWorld\<lparr>incoming := [(''+OK'', None)]\<rparr>) =
   checkList False 5242880 10485760
     (freshWorld\<lparr>outgoing := [(''PASS p'' @ [CHR 0x0D, CHR 0x0A], WriteOk)]\<rparr>)"
proof -
  have u1: "writeLine False (''USER '' @ ''u'') (freshWorld\<lparr>incoming := [(''-ERR no'', None)]\<rparr>) =
     (None, freshWorld\<lparr>incoming := [(''-ERR no'', None)],
                       outgoing := [(''USER u'' @ [CHR 0x0D, CHR 0x0A], WriteOk)]\<rparr>)"
    by (simp add: io_eval freshWorld_def)
  have u2: "readLines endOK (freshWorld\<lparr>incoming := [(''-ERR no'', None)],
                       outgoing := [(''USER u'' @ [CHR 0x0D, CHR 0x0A], WriteOk)]\<rparr>) =
     (([''-ERR no''], None),
      freshWorld\<lparr>outgoing := [(''USER u'' @ [CHR 0x0D, CHR 0x0A], WriteOk)],
                 logged := [ReadFailure IoEOF]\<rparr>)"
    by (simp add: string_eval io_eval endOK_def freshWorld_def)
  have p1: "writeLine False (''PASS '' @ ''p'') (freshWorld\<lparr>incoming := [(''+OK'', None)]\<rparr>) =
     (None, freshWorld\<lparr>incoming := [(''+OK'', None)],
                       outgoing := [(''PASS p'' @ [CHR 0x0D, CHR 0x0A], WriteOk)]\<rparr>)"
    by (simp add: io_eval freshWorld_def)
  have p2: "readLines endOK (freshWorld\<lparr>incoming := [(''+OK'', None)],
                       outgoing := [(''PASS p'' @ [CHR 0x0D, CHR 0x0A], WriteOk)]\<rparr>) =
     (([''+OK''], None), freshWorld\<lparr>outgoing := [(''PASS p'' @ [CHR 0x0D, CHR 0x0A], WriteOk)]\<rparr>)"
    by (simp add: string_eval io_eval endOK_def freshWorld_def)
  from auth_gate [where v = False and user = "''u''" and pass = "''p''" and ws = 5242880
      and q = 10485760 and w = "freshWorld\<lparr>incoming := [(''-ERR no'', None)]\<rparr>"
      and ?w1.0 = "freshWorld\<lparr>incoming := [(''-ERR no'', None)],
                       outgoing := [(''USER u'' @ [CHR 0x0D, CHR 0x0A], WriteOk)]\<rparr>"
      and lines = "[''-ERR no'']"
      and ?w2.0 = "freshWorld\<lparr>outgoing := [(''USER u'' @ [CHR 0x0D, CHR 0x0A], WriteOk)],
                 logged := [ReadFailure IoEOF]\<rparr>"]
    auth_gate [where v = False and user = "''u''" and pass = "''p''" and ws = 5242880
      and q = 10485760 and w = "freshWorld\<lparr>incoming := [(''+OK'', None)]\<rparr>"
      and ?w1.0 = "freshWorld\<lparr>incoming := [(''+OK'', None)],
                       outgoing := [(''PASS p'' @ [CHR 0x0D, CHR 0x0A], WriteOk)]\<rparr>"
      and lines = "[''+OK'']"
      and ?w2.0 = "freshWorld\<lparr>outgoing := [(''PASS p'' @ [CHR 0x0D, CHR 0x0A], WriteOk)]\<rparr>"]
    u1 u2 p1 p2
  show ?thesis
    by (simp add: HasPrefix_def logPrintf_def)
qed

subsection \<open>C8: a collection whose first read ends it\<close>

text \<open>
  C8. When the first read of a collection ends in a timeout or in \<^verbatim>\<open>io.EOF\<close> (or the
  peer has closed), \<^verbatim>\<open>readLines\<close> returns the empty sequence and no error: for the
  line session this is a success. It is the callers' line counts that turn it into a
  failure: the greeting fails with "Unexpected line count", the USER and PASS exchanges
  with their own errors. The LIST step counts no lines, and there the empty collection
  passes: the check succeeds.
\<close>

theorem empty_collection_is_success:
  assumes "incoming w = [] \<or>
           (\<exists>l e rest. incoming w = (l, Some e) # rest \<and> (e = NetTimeout \<or> e = IoEOF))"
  shows "fst (readLines endCheck w) = ([], None) \<and>
         fst (checkGreeting v user pass ws q w) = Some (ErrorsNew ''Unexpected line count'') \<and>
         (fst (writeLine v (''USER '' @ user) w) = None \<longrightarrow>
            fst (checkUser v user pass ws q w) = Some (ErrorsNew ''Unexpected user respose'')) \<and>
         (fst (writeLine v (''PASS '' @ pass) w) = None \<longrightarrow>
            fst (checkPass v pass ws q w) = Some (ErrorsNew ''Unexpected PASS respose'')) \<and>
         fst (checkList v ws q w) = None"
proof -
  have ends: "\<exists>w''. readLines c w' = (([], None), w'')" if "incoming w' = incoming w" for c w'
    using readLines_first_ends [of w' c] assms that by simp
  have 1: "fst (readLines endCheck w) = ([], None)"
    using ends [of w endCheck] by auto
  have 2: "fst (checkGreeting v user pass ws q w) = Some (ErrorsNew ''Unexpected line count'')"
    using ends [of w endOK] by (auto simp: checkGreeting_def)
  have 3: "fst (checkUser v user pass ws q w) = Some (ErrorsNew ''Unexpected user respose'')"
    if "fst (writeLine v (''USER '' @ user) w) = None"
  proof -
    define w1 where "w1 = snd (writeLine v (''USER '' @ user) w)"
    have wl: "writeLine v (''USER '' @ user) w = (None, w1)"
      using that unfolding w1_def by (simp only: prod_eq_iff fst_conv snd_conv)
    from writeLine_frame [OF wl] have "incoming w1 = incoming w" by simp
    from ends [OF this, of endOK] wl show ?thesis by (auto simp: checkUser_def)
  qed
  have 4: "fst (checkPass v pass ws q w) = Some (ErrorsNew ''Unexpected PASS respose'')"
    if "fst (writeLine v (''PASS '' @ pass) w) = None"
  proof -
    define w1 where "w1 = snd (writeLine v (''PASS '' @ pass) w)"
    have wl: "writeLine v (''PASS '' @ pass) w = (None, w1)"
      using that unfolding w1_def by (simp only: prod_eq_iff fst_conv snd_conv)
    from writeLine_frame [OF wl] have "incoming w1 = incoming w" by simp
    from ends [OF this, of endOK] wl show ?thesis by (auto simp: checkPass_def)
  qed
  have 5: "fst (checkList v ws q w) = None"
  proof -
    obtain err w1 where wl: "writeLine v ''LIST'' w = (err, w1)"
      by (cases "writeLine v ''LIST'' w")
    from writeLine_frame [OF wl] have "incoming w1 = incoming w" by simp
    from ends [OF this, of endDot] wl show ?thesis by (auto simp: checkList_def Let_def)
  qed
  from 1 2 3 4 5 show ?thesis by blast
qed

theorem empty_collection_is_success_witness:
  "fst (readLines endOK (freshWorld\<lparr>incoming := [([], Some NetTimeout)]\<rparr>)) = ([], None) \<and>
   fst (checkGreeting False ''u'' ''p'' 5242880 10485760
          (freshWorld\<lparr>incoming := [([], Some NetTimeout)]\<rparr>)) =
     Some (ErrorsNew ''Unexpected line count'') \<and>
   fst (checkList False 5242880 10485760 (freshWorld\<lparr>incoming := [([], Some NetTimeout)]\<rparr>)) =
     None"
  using empty_collection_is_success
    [of "freshWorld\<lparr>incoming := [([], Some NetTimeout)]\<rparr>" endOK False "''u''" "''p''"
        5242880 10485760]
  by simp

subsection \<open>C9: negative numbers in a LIST line\<close>

text \<open>
  C9. The scan takes a sign in front of either number: two integer texts separated by
  a space, each within the range of \<^verbatim>\<open>int\<close>, scan as their values, negative ones
  included (\<^verbatim>\<open>-3 -5\<close> gives id -3 and size -5). For an entry with a negative size and a
  positive warn size the loop logs no warning and adds the size to the running total.
  So the total can be less than the sum of the sizes that are not negative, and
  negative itself: with the entries \<^verbatim>\<open>1 100\<close> and \<^verbatim>\<open>2 -300\<close> the verbose run reports
  the total -200.
\<close>

theorem negative_sizes_lower_the_total:
  "(isEntryLine line \<and> scans line \<and> entryOf line = (i, s) \<and> sint s < 0 \<and> 0 < sint ws \<longrightarrow>
      rangeLines v ws (line # rest) t w =
      rangeLines v ws rest (t + s) (if v then logPrintf (ReadLISTLine line) w else w)) \<and>
   (isInteger a \<and> fitsInt a \<and> isInteger b \<and> fitsInt b \<longrightarrow>
      Sscanf (a @ '' '' @ b) = (2, None, word_of_int (intValue a), word_of_int (intValue b))) \<and>
   Sscanf ''-3 -5'' = (2, None, - 3, - 5) \<and>
   sint (- 5 :: go_int) = - 5 \<and>
   checkList True 5242880 10485760
     (freshWorld\<lparr>incoming := map (\<lambda>l. (l, None)) [''+OK'', ''1 100'', ''2 -300'', ''.'']\<rparr>) =
   (None,
    freshWorld\<lparr>outgoing := [(''LIST'' @ [CHR 0x0D, CHR 0x0A], WriteOk)],
      logged := [WritingLine ''LIST'', ReadLISTLine ''+OK'', ReadLISTLine ''1 100'',
                 ReadLISTLine ''2 -300'', ReadLISTLine ''.'', TotalSize (- 200)]\<rparr>) \<and>
   sint (- 200 :: go_int) = - 200"
proof -
  have 1: "rangeLines v ws (line # rest) t w =
      rangeLines v ws rest (t + s) (if v then logPrintf (ReadLISTLine line) w else w)"
    if "isEntryLine line" "scans line" "entryOf line = (i, s)" "sint s < 0" "0 < sint ws"
    using rangeLines_entry [OF that(1-3), of v ws rest t w] that(4,5) by (simp add: Let_def)
  have 2: "Sscanf (a @ '' '' @ b) = (2, None, word_of_int (intValue a), word_of_int (intValue b))"
    if "isInteger a" "fitsInt a" "isInteger b" "fitsInt b"
    using Sscanf_two_integers [OF that, of "'' ''" "[]"]
    by (simp add: isBlank_def asciiSpace_def)
  have 3: "Sscanf ''-3 -5'' = (2, None, - 3, - 5)"
    by (simp add: string_eval scan_eval)
  have 4: "sint (- 5 :: go_int) = - 5" "sint (- 200 :: go_int) = - 200"
    by simp_all
  have 5: "checkList True 5242880 10485760
     (freshWorld\<lparr>incoming := map (\<lambda>l. (l, None)) [''+OK'', ''1 100'', ''2 -300'', ''.'']\<rparr>) =
   (None,
    freshWorld\<lparr>outgoing := [(''LIST'' @ [CHR 0x0D, CHR 0x0A], WriteOk)],
      logged := [WritingLine ''LIST'', ReadLISTLine ''+OK'', ReadLISTLine ''1 100'',
                 ReadLISTLine ''2 -300'', ReadLISTLine ''.'', TotalSize (- 200)]\<rparr>)"
    by (simp add: string_eval scan_eval io_eval check_eval)
  from 1 2 3 4 5 show ?thesis by blast
qed

theorem negative_sizes_lower_the_total_witness:
  "rangeLines False 5242880 [''2 -300'', ''3 50''] 100 freshWorld =
   rangeLines False 5242880 [''3 50''] (- 200) freshWorld \<and>
   Sscanf ''-7 -300'' = (2, None, - 7, - 300)"
proof -
  have h: "isEntryLine ''2 -300'' \<and> scans ''2 -300'' \<and> entryOf ''2 -300'' = (2, - 300) \<and>
      sint (- 300 :: go_int) < 0 \<and> 0 < sint (5242880 :: go_int)"
    by (simp add: entry_eval string_eval scan_eval)
  have ints: "isInteger ''-7'' \<and> fitsInt ''-7'' \<and> isInteger ''-300'' \<and> fitsInt ''-300''"
    by (simp add: isInteger_def fitsInt_def intValue_def decimalValue_def isDigit_def
        digitVal_def isSign_def)
  have vals: "intValue ''-7'' = - 7" "intValue ''-300'' = - 300"
    by (simp_all add: intValue_def decimalValue_def digitVal_def)
  from negative_sizes_lower_the_total [where line = "''2 -300''" and i = 2 and s = "- 300"
      and ws = 5242880 and v = False and rest = "[''3 50'']" and t = 100 and w = freshWorld
      and a = "''-7''" and b = "''-300''"] h ints
  show ?thesis by (auto simp add: vals simp del: rangeLines.simps)
qed

subsection \<open>C10: the verbose flag\<close>

text \<open>
  C10. For every world (every sequence of server responses and write results), the run
  with \<^verbatim>\<open>verboseOutput\<close> set and the run without it return the same error or success
  and log the same warnings; the two worlds they end in differ in the verbose-only log
  lines alone (same reads consumed, same lines handed to the writer, same connection
  status), and when the log holds no verbose-only line at the start, the log of the
  quiet run is the log of the verbose run with the verbose-only lines taken out.
\<close>

theorem verbose_only_adds_log_lines:
  "fst (checkMailbox True host user pass ws q w) = fst (checkMailbox False host user pass ws q w) \<and>
   warnings (snd (checkMailbox True host user pass ws q w)) =
     warnings (snd (checkMailbox False host user pass ws q w)) \<and>
   quiet (snd (checkMailbox True host user pass ws q w)) =
     quiet (snd (checkMailbox False host user pass ws q w)) \<and>
   (list_all (\<lambda>e. \<not> verboseOnly e) (logged w) \<longrightarrow>
      logged (snd (checkMailbox False host user pass ws q w)) =
        filter (\<lambda>e. \<not> verboseOnly e) (logged (snd (checkMailbox True host user pass ws q w))))"
proof -
  let ?T = "checkMailbox True host user pass ws q w"
  let ?F = "checkMailbox False host user pass ws q w"
  have T: "checkMailbox False host user pass ws q (quiet w) = apsnd quiet ?T"
    by (rule checkMailbox_quiet)
  have F: "checkMailbox False host user pass ws q (quiet w) = apsnd quiet ?F"
    by (rule checkMailbox_quiet)
  from T F have eq: "apsnd quiet ?T = apsnd quiet ?F" by simp
  then have 1: "fst ?T = fst ?F" and 3: "quiet (snd ?T) = quiet (snd ?F)"
    by (simp_all add: apsnd_def map_prod_def split_beta)
  from 3 have 2: "warnings (snd ?T) = warnings (snd ?F)"
    by (metis warnings_quiet)
  have 4: "logged (snd ?F) = filter (\<lambda>e. \<not> verboseOnly e) (logged (snd ?T))"
    if "list_all (\<lambda>e. \<not> verboseOnly e) (logged w)"
  proof -
    from quiet_idem [OF that] F have "?F = apsnd quiet ?F" by simp
    then have "snd ?F = quiet (snd ?F)"
      by (metis apsnd_conv prod.collapse snd_conv)
    with 3 have "snd ?F = quiet (snd ?T)" by simp
    then show ?thesis by (simp add: quiet_def)
  qed
  from 1 2 3 4 show ?thesis by blast
qed

theorem verbose_only_adds_log_lines_witness:
  "logged (snd (checkMailbox False ''h'' ''u'' ''p'' 1000 1000
     (serverSends [''+OK POP3 ready'', ''+OK'', ''+OK'', ''+OK 1 messages'', ''1 500'', ''.'']))) =
   filter (\<lambda>e. \<not> verboseOnly e)
     [Connecting ''h'', Connected ''h:110'' ''192.0.2.1:110'',
      WritingLine ''USER u'', WritingLine ''PASS p'', WritingLine ''LIST'',
      ReadLISTLine ''+OK 1 messages'', ReadLISTLine ''1 500'', ReadLISTLine ''.'',
      TotalSize 500]"
proof -
  have "list_all (\<lambda>e. \<not> verboseOnly e) (logged (serverSends
      [''+OK POP3 ready'', ''+OK'', ''+OK'', ''+OK 1 messages'', ''1 500'', ''.'']))"
    by (simp add: serverSends_def freshWorld_def)
  with verbose_only_adds_log_lines [of "''h''" "''u''" "''p''" 1000 1000
      "serverSends [''+OK POP3 ready'', ''+OK'', ''+OK'', ''+OK 1 messages'', ''1 500'', ''.'']"]
  have "logged (snd (checkMailbox False ''h'' ''u'' ''p'' 1000 1000
     (serverSends [''+OK POP3 ready'', ''+OK'', ''+OK'', ''+OK 1 messages'', ''1 500'', ''.'']))) =
   filter (\<lambda>e. \<not> verboseOnly e) (logged (snd (checkMailbox True ''h'' ''u'' ''p'' 1000 1000
     (serverSends [''+OK POP3 ready'', ''+OK'', ''+OK'', ''+OK 1 messages'', ''1 500'', ''.'']))))"
    by blast
  then show ?thesis by (simp only: run_small_verbose snd_conv) (simp add: freshWorld_def)
qed

end
